theory Spec2Isabelle
  imports Main "HOL-Library.Word"
begin

section \<open>Initial block synchronisation core of the beacon node\<close>

text \<open>
  A shallow embedding of the Go sources of the sync package: the BlocksByRange
  server (\<^verbatim>\<open>rpc_beacon_blocks_by_range.go\<close>), the range client
  (\<^verbatim>\<open>rpc_send_request.go\<close>), the gossip block validator
  (\<^verbatim>\<open>validateBeaconBlockPubSub\<close>) and the round-robin driver
  (\<^verbatim>\<open>round_robin.go\<close>).  Go's \<^verbatim>\<open>uint64\<close> is \<open>64 word\<close>, so
  \<open>+\<close>, \<open>-\<close> and \<open>*\<close> wrap as they do in Go; a \<^verbatim>\<open>[32]byte\<close> root is a
  \<open>256 word\<close> whose zero value is \<open>0\<close>.
\<close>

subsection \<open>Data model\<close>

type_synonym u64 = "64 word"
type_synonym root = "256 word"

text \<open>
  The fields of a signed beacon block that the core reads; the body is opaque.
  \<^verbatim>\<open>ParentRoot\<close> is a byte slice in Go that the code reads through
  \<^verbatim>\<open>bytesutil.ToBytes32\<close>; a decoded block always carries 32 bytes there.
\<close>

record block =
  Slot :: u64
  ProposerIndex :: u64
  ParentRoot :: root
  Body :: nat

record BeaconBlocksByRangeRequest =
  StartSlot :: u64
  Step :: u64
  Count :: u64

text \<open>
  The error values that the modelled functions return.  \<open>PanicDivideByZero\<close> stands
  for Go's run-time panic of \<^verbatim>\<open>%\<close> and \<^verbatim>\<open>/\<close> by zero and \<open>PanicMakeSlice\<close> for
  the failure of \<^verbatim>\<open>make\<close> on a capacity that the runtime does not grant;
  \<open>ErrOther\<close> carries the errors of the collaborators (store, fork choice,
  transport), which the core only passes on.
\<close>

datatype error =
    ErrInvalidRequest
  | ErrRateLimited
  | ErrInvalidParent
  | ErrGeneric
  | ErrInvalidFetchedData
  | ErrDiffLengths
  | ErrNoCollector
  | ErrNoBlocksProvided
  | ErrNoGoodBlocks
  | ErrParentDoesNotExist
  | ErrNonLinear
  | ErrIncorrectProposerIndex
  | ErrContextCanceled
  | errInvalidInitialState
  | errInputNotFetchRequestParams
  | errSlotIsTooHigh
  | errNoRequiredPeers
  | errNoMachine
  | PanicDivideByZero
  | PanicMakeSlice
  | ErrOther nat

subsection \<open>Range server\<close>

text \<open>
  What the handler consumes from outside the files at hand: the constant
  \<^verbatim>\<open>rangeLimit\<close>, the network parameter \<^verbatim>\<open>MaxRequestBlocks\<close>, the flag
  \<^verbatim>\<open>BlockBatchLimit\<close>, the chain's current slot and canonical view, the block
  store, the helpers \<^verbatim>\<open>dedupBlocksAndRoots\<close> and \<^verbatim>\<open>sortBlocksAndRoots\<close>, and the
  chunk writer.  They are parameters, fixed for the duration of one request.
\<close>

record range_env =
  rangeLimit :: u64
  MaxRequestBlocks :: u64
  BlockBatchLimit :: u64
  CurrentSlot :: u64
  db_Blocks :: "u64 \<Rightarrow> u64 \<Rightarrow> u64 \<Rightarrow> error + (block list \<times> root list)"
  retrieveGenesisBlock :: "error + (block \<times> root)"
  dedupBlocksAndRoots :: "block list \<Rightarrow> root list \<Rightarrow> error + (block list \<times> root list)"
  sortBlocksAndRoots :: "block list \<Rightarrow> root list \<Rightarrow> block list \<times> root list"
  IsCanonical :: "root \<Rightarrow> error + bool"
  chunkWriter :: "block \<Rightarrow> error option"

text \<open>\<^verbatim>\<open>validateRangeRequest\<close>.\<close>

definition validateRangeRequest :: "range_env \<Rightarrow> BeaconBlocksByRangeRequest \<Rightarrow> error option" where
  "validateRangeRequest s r =
     (let startSlot = StartSlot r;
          count = Count r;
          step = Step r;
          maxRequestBlocks = MaxRequestBlocks s;
          buffer = rangeLimit s * 2;
          highestExpectedSlot = CurrentSlot s + buffer
      in if count = 0 \<or> count > maxRequestBlocks then Some ErrInvalidRequest
         else if step = 0 \<or> step > rangeLimit s then Some ErrInvalidRequest
         else if startSlot > highestExpectedSlot then Some ErrInvalidRequest
         else let endSlot = startSlot + (step * (count - 1))
              in if endSlot - startSlot > rangeLimit s then Some ErrInvalidRequest
                 else None)"

text \<open>
  The four bounds of a range request, read over the integers: the count lies in
  \<open>[1, MAX_REQUEST_BLOCKS]\<close>, the step in \<open>[1, RANGE_LIMIT]\<close>, the start slot is at
  most \<open>current_slot + 2 * RANGE_LIMIT\<close>, and \<open>step * (count - 1)\<close> is at most
  \<open>RANGE_LIMIT\<close>.
\<close>

definition request_in_bounds :: "range_env \<Rightarrow> BeaconBlocksByRangeRequest \<Rightarrow> bool" where
  "request_in_bounds s r \<longleftrightarrow>
     1 \<le> uint (Count r) \<and> uint (Count r) \<le> uint (MaxRequestBlocks s) \<and>
     1 \<le> uint (Step r) \<and> uint (Step r) \<le> uint (rangeLimit s) \<and>
     uint (StartSlot r) \<le> uint (CurrentSlot s) + 2 * uint (rangeLimit s) \<and>
     uint (Step r) * (uint (Count r) - 1) \<le> uint (rangeLimit s)"

text \<open>
  The handler's variable \<^verbatim>\<open>prevRoot\<close> is passed by address
  (\<^verbatim>\<open>&prevRoot\<close>) through \<^verbatim>\<open>writeBlockRangeToStream\<close> to
  \<^verbatim>\<open>filterBlocks\<close>, so the model keeps an explicit store of \<^verbatim>\<open>[32]byte\<close>
  cells: an address is an index into the list of cells, and a new local variable is a
  new cell at the end.
\<close>

type_synonym addr = nat
type_synonym heap = "root list"

text \<open>
  The loop of \<^verbatim>\<open>filterBlocks\<close> over the blocks and their roots.  \<open>p\<close> is the
  function's own pointer variable \<^verbatim>\<open>prevRoot\<close>: the statement
  \<^verbatim>\<open>currRoot := roots[i]; prevRoot = &currRoot\<close> allocates a cell for
  \<^verbatim>\<open>currRoot\<close> and points \<open>p\<close> at it.  \<^verbatim>\<open>return nil, err\<close> gives the empty
  list.
\<close>

fun filterLoop :: "range_env \<Rightarrow> u64 \<Rightarrow> u64 \<Rightarrow> (block \<times> root) list \<Rightarrow> heap \<Rightarrow> addr \<Rightarrow> block list
    \<Rightarrow> (block list \<times> error option) \<times> heap" where
  "filterLoop s step startSlot [] h p newBlks = ((newBlks, None), h)"
| "filterLoop s step startSlot ((b, r) # rest) h p newBlks =
     (if step = 0 then (([], Some PanicDivideByZero), h)
      else let isRequestedSlotStep = ((Slot b - startSlot) mod step = 0)
           in case IsCanonical s r of
                Inl err \<Rightarrow> (([], Some err), h)
              | Inr isCanonical \<Rightarrow>
                  let parentValid = (h ! p \<noteq> 0);
                      isLinear = (h ! p = ParentRoot b);
                      isSingular = (step = 1)
                  in if isRequestedSlotStep \<and> isCanonical
                     then if parentValid \<and> isSingular \<and> \<not> isLinear
                          then ((newBlks, Some ErrInvalidParent), h)
                          else filterLoop s step startSlot rest (h @ [r]) (length h) (newBlks @ [b])
                     else filterLoop s step startSlot rest h p newBlks)"

definition filterBlocks :: "range_env \<Rightarrow> block list \<Rightarrow> root list \<Rightarrow> heap \<Rightarrow> addr \<Rightarrow> u64 \<Rightarrow> u64
    \<Rightarrow> (block list \<times> error option) \<times> heap" where
  "filterBlocks s blks roots h prevRoot step startSlot =
     (if length blks \<noteq> length roots then (([], Some ErrDiffLengths), h)
      else filterLoop s step startSlot (zip blks roots) h prevRoot [])"

text \<open>
  The filter for single steps, stated on the batch.  The canonical blocks of a batch
  are those whose root the fork choice reports as canonical; a block is accepted
  while the previous root is zero or is the block's parent root, and the accepted
  blocks are the longest such prefix of the canonical blocks, beginning from the
  previous root \<open>prev\<close>.
\<close>

definition canonical_blocks :: "range_env \<Rightarrow> (block \<times> root) list \<Rightarrow> (block \<times> root) list" where
  "canonical_blocks s brs = filter (\<lambda>br. IsCanonical s (snd br) = Inr True) brs"

fun linear_prefix :: "root \<Rightarrow> (block \<times> root) list \<Rightarrow> (block \<times> root) list" where
  "linear_prefix prev [] = []"
| "linear_prefix prev ((b, r) # brs) =
     (if prev \<noteq> 0 \<and> prev \<noteq> ParentRoot b then [] else (b, r) # linear_prefix r brs)"

text \<open>The response stream: the chunks written so far, oldest first.\<close>

datatype response_code =
    responseCodeSuccess
  | responseCodeInvalidRequest
  | responseCodeServerError
  | responseCodeRateLimited

datatype chunk = SuccessChunk block | ErrorChunk response_code error

text \<open>
  The chunk loop of \<^verbatim>\<open>writeBlockRangeToStream\<close>.  Blocks read from the store are
  never nil, so the \<^verbatim>\<open>continue\<close> for nil blocks has no counterpart.
\<close>

fun writeChunks :: "range_env \<Rightarrow> block list \<Rightarrow> chunk list \<Rightarrow> error option \<times> chunk list" where
  "writeChunks s [] stream = (None, stream)"
| "writeChunks s (b # blks) stream =
     (case chunkWriter s b of
        Some chunkErr \<Rightarrow> (Some chunkErr, stream @ [ErrorChunk responseCodeServerError ErrGeneric])
      | None \<Rightarrow> writeChunks s blks (stream @ [SuccessChunk b]))"

definition writeBlockRangeToStream :: "range_env \<Rightarrow> u64 \<Rightarrow> u64 \<Rightarrow> u64 \<Rightarrow> heap \<Rightarrow> addr \<Rightarrow> chunk list
    \<Rightarrow> error option \<times> chunk list \<times> heap" where
  "writeBlockRangeToStream s startSlot endSlot step h prevRoot stream =
     (case db_Blocks s startSlot endSlot step of
        Inl err \<Rightarrow> (Some err, stream @ [ErrorChunk responseCodeServerError ErrGeneric], h)
      | Inr (blks, roots) \<Rightarrow>
          (case (if startSlot = 0
                 then (case retrieveGenesisBlock s of
                         Inl err \<Rightarrow> Inl err
                       | Inr (genBlock, genRoot) \<Rightarrow> Inr (genBlock # blks, genRoot # roots))
                 else Inr (blks, roots)) of
             Inl err \<Rightarrow> (Some err, stream @ [ErrorChunk responseCodeServerError ErrGeneric], h)
           | Inr (blks1, roots1) \<Rightarrow>
               (case dedupBlocksAndRoots s blks1 roots1 of
                  Inl err \<Rightarrow> (Some err, stream @ [ErrorChunk responseCodeServerError ErrGeneric], h)
                | Inr (blks2, roots2) \<Rightarrow>
                    (case sortBlocksAndRoots s blks2 roots2 of
                       (blks3, roots3) \<Rightarrow>
                         (case filterBlocks s blks3 roots3 h prevRoot step startSlot of
                            ((blks4, err), h') \<Rightarrow>
                              if err = Some PanicDivideByZero then (err, stream, h')
                              else if err \<noteq> None \<and> err \<noteq> Some ErrInvalidParent
                              then (err, stream @ [ErrorChunk responseCodeServerError ErrGeneric], h')
                              else (case writeChunks s blks4 stream of
                                      (Some chunkErr, stream') \<Rightarrow> (Some chunkErr, stream', h')
                                    | (None, stream') \<Rightarrow> (err, stream', h')))))))"

text \<open>
  The blocks and roots that reach the filter in \<^verbatim>\<open>writeBlockRangeToStream\<close>: read
  from the store, preceded by the genesis block if the range starts at slot 0,
  deduplicated and sorted.
\<close>

definition retrieveBatch :: "range_env \<Rightarrow> u64 \<Rightarrow> u64 \<Rightarrow> u64 \<Rightarrow> error + (block list \<times> root list)" where
  "retrieveBatch s startSlot endSlot step =
     (case db_Blocks s startSlot endSlot step of
        Inl err \<Rightarrow> Inl err
      | Inr (blks, roots) \<Rightarrow>
          (case (if startSlot = 0
                 then (case retrieveGenesisBlock s of
                         Inl err \<Rightarrow> Inl err
                       | Inr (genBlock, genRoot) \<Rightarrow> Inr (genBlock # blks, genRoot # roots))
                 else Inr (blks, roots)) of
             Inl err \<Rightarrow> Inl err
           | Inr (blks1, roots1) \<Rightarrow>
               (case dedupBlocksAndRoots s blks1 roots1 of
                  Inl err \<Rightarrow> Inl err
                | Inr (blks2, roots2) \<Rightarrow> Inr (sortBlocksAndRoots s blks2 roots2))))"

text \<open>
  Modelled from the spec: the leaky bucket of the rate limiter, whose code
  (\<^verbatim>\<open>rate_limiter.go\<close> and the bucket library) is not among the sources.  The
  state is the remaining capacity of the requesting peer's bucket for the topic.
  \<open>validate\<close> returns the rate-limited error when \<open>remaining < cost\<close>, without
  modifying state; \<open>add\<close> decrements remaining by the cost and never goes negative
  (it saturates at 0).  The refill of the bucket with time is outside the model: one
  request is served against a bucket that only drains.
\<close>

definition limiter_validateRequest :: "int \<Rightarrow> u64 \<Rightarrow> error option" where
  "limiter_validateRequest remaining amt =
     (if remaining < uint amt then Some ErrRateLimited else None)"

definition limiter_add :: "int \<Rightarrow> int \<Rightarrow> int" where
  "limiter_add remaining amt = (if remaining < amt then 0 else remaining - amt)"

text \<open>
  The state of the batching loop of \<^verbatim>\<open>beaconBlocksByRangeRPCHandler\<close>
  (\<open>batch_start\<close> and \<open>batch_end\<close> are its variables \<^verbatim>\<open>startSlot\<close> and
  \<^verbatim>\<open>endSlot\<close>) and what
  the handler leaves behind: the returned error, the stream, the peer's remaining
  bucket capacity, the number of bad-response penalties, and the store of
  \<^verbatim>\<open>[32]byte\<close> cells (the handler's \<^verbatim>\<open>prevRoot\<close> is cell 0).
\<close>

record loop_state =
  batch_start :: u64
  batch_end :: u64
  stream :: "chunk list"
  remaining :: int
  cells :: heap

record handler_result =
  ret :: "error option"
  written :: "chunk list"
  bucket :: int
  penalties :: nat
  final_cells :: heap

datatype step_result = Done handler_result | Continue loop_state

text \<open>
  One pass through the body of the \<^verbatim>\<open>for startSlot <= endReqSlot\<close> loop; the
  handler's \<^verbatim>\<open>prevRoot\<close> lives at address \<open>prevRoot\<close>.  A rejected rate-limit
  validation writes the rate-limited error chunk (as the spec's step 2 says).
\<close>

definition batchStep :: "range_env \<Rightarrow> BeaconBlocksByRangeRequest \<Rightarrow> u64 \<Rightarrow> addr \<Rightarrow> loop_state \<Rightarrow> step_result" where
  "batchStep s m endReqSlot prevRoot st =
     (let allowedBlocksPerSecond = BlockBatchLimit s
      in case limiter_validateRequest (remaining st) allowedBlocksPerSecond of
           Some err \<Rightarrow>
             Done \<lparr>ret = Some err,
                   written = stream st @ [ErrorChunk responseCodeRateLimited ErrRateLimited],
                   bucket = remaining st, penalties = 1, final_cells = cells st\<rparr>
         | None \<Rightarrow>
             if batch_end st - batch_start st > rangeLimit s
             then Done \<lparr>ret = Some ErrInvalidRequest,
                        written = stream st @ [ErrorChunk responseCodeInvalidRequest ErrInvalidRequest],
                        bucket = remaining st, penalties = 0, final_cells = cells st\<rparr>
             else (case writeBlockRangeToStream s (batch_start st) (batch_end st) (Step m)
                          (cells st) prevRoot (stream st) of
                     (err, stream', h') \<Rightarrow>
                       if err \<noteq> None \<and> err \<noteq> Some ErrInvalidParent
                       then Done \<lparr>ret = err, written = stream', bucket = remaining st,
                                  penalties = 0, final_cells = h'\<rparr>
                       else if batch_start st \<le> batch_end st \<and> Step m = 0
                       then Done \<lparr>ret = Some PanicDivideByZero, written = stream',
                                  bucket = remaining st, penalties = 0, final_cells = h'\<rparr>
                       else let remaining' =
                                  (if batch_start st \<le> batch_end st
                                   then limiter_add (remaining st)
                                          (sint (1 + (batch_end st - batch_start st) div Step m))
                                   else remaining st)
                            in if err = Some ErrInvalidParent
                               then Done \<lparr>ret = None, written = stream', bucket = remaining',
                                          penalties = 0, final_cells = h'\<rparr>
                               else let startSlot' = batch_end st + Step m;
                                        endSlot0 = startSlot' + (Step m * (allowedBlocksPerSecond - 1));
                                        endSlot' = (if endSlot0 > endReqSlot then endReqSlot else endSlot0)
                                    in if startSlot' > endReqSlot
                                       then Done \<lparr>ret = None, written = stream', bucket = remaining',
                                                  penalties = 0, final_cells = h'\<rparr>
                                       else Continue \<lparr>batch_start = startSlot', batch_end = endSlot',
                                                      stream = stream', remaining = remaining',
                                                      cells = h'\<rparr>))"

text \<open>
  The loop itself.  Nothing in the code bounds the number of passes when the slot
  arithmetic wraps, so the loop is a partial function: \<open>None\<close> is a handler that
  never returns.
\<close>

partial_function (option) handlerLoop :: "range_env \<Rightarrow> BeaconBlocksByRangeRequest \<Rightarrow> u64 \<Rightarrow> addr \<Rightarrow> loop_state
    \<Rightarrow> handler_result option" where
  "handlerLoop s m endReqSlot prevRoot st =
     (if batch_start st \<le> endReqSlot
      then (case batchStep s m endReqSlot prevRoot st of
              Done res \<Rightarrow> Some res
            | Continue st' \<Rightarrow> handlerLoop s m endReqSlot prevRoot st')
      else Some \<lparr>ret = None, written = stream st, bucket = remaining st, penalties = 0,
                 final_cells = cells st\<rparr>)"

text \<open>The remaining capacity of a bucket that the handler did not touch.\<close>

definition untouched :: "int option \<Rightarrow> int" where
  "untouched limiter = (case limiter of None \<Rightarrow> 0 | Some r \<Rightarrow> r)"

text \<open>
  \<^verbatim>\<open>beaconBlocksByRangeRPCHandler\<close> for a decoded request.  \<open>limiter\<close> is the
  peer's bucket for the topic, \<open>None\<close> when the limiter has no collector for it.
  \<^verbatim>\<open>var prevRoot [32]byte\<close> is the zero cell at address 0.
\<close>

definition beaconBlocksByRangeRPCHandler :: "range_env \<Rightarrow> int option \<Rightarrow> BeaconBlocksByRangeRequest
    \<Rightarrow> handler_result option" where
  "beaconBlocksByRangeRPCHandler s limiter m =
     (case validateRangeRequest s m of
        Some err \<Rightarrow>
          Some \<lparr>ret = Some err, written = [ErrorChunk responseCodeInvalidRequest err],
                bucket = untouched limiter, penalties = 1, final_cells = []\<rparr>
      | None \<Rightarrow>
          let count = (if Count m > BlockBatchLimit s then BlockBatchLimit s else Count m);
              startSlot0 = StartSlot m;
              endSlot0 = startSlot0 + (Step m * (count - 1));
              endReqSlot = startSlot0 + (Step m * (Count m - 1))
          in case limiter of
               None \<Rightarrow>
                 Some \<lparr>ret = Some ErrNoCollector, written = [], bucket = untouched limiter,
                       penalties = 0, final_cells = []\<rparr>
             | Some remaining0 \<Rightarrow>
                 handlerLoop s m endReqSlot 0
                   \<lparr>batch_start = startSlot0, batch_end = endSlot0, stream = [],
                    remaining = remaining0, cells = [0]\<rparr>)"

text \<open>
  The bucket after one pass of the loop, and the debit of a batch read over the
  integers.
\<close>

definition bucket_after :: "step_result \<Rightarrow> int" where
  "bucket_after r = (case r of Done res \<Rightarrow> bucket res | Continue st \<Rightarrow> remaining st)"

definition batch_debit :: "BeaconBlocksByRangeRequest \<Rightarrow> loop_state \<Rightarrow> int" where
  "batch_debit m st = 1 + (uint (batch_end st) - uint (batch_start st)) div uint (Step m)"

text \<open>
  A store that serves a range without a store or serialization error: whatever the
  stream and the cells, writing the range ends with no error or with the
  invalid-parent error.
\<close>

definition serves :: "range_env \<Rightarrow> u64 \<Rightarrow> u64 \<Rightarrow> u64 \<Rightarrow> bool" where
  "serves s a b step \<longleftrightarrow>
     (\<forall>h out. fst (writeBlockRangeToStream s a b step h 0 out) = None \<or>
              fst (writeBlockRangeToStream s a b step h 0 out) = Some ErrInvalidParent)"

text \<open>
  \<open>n\<close> requests in a row from one peer, served against the peer's bucket, which does
  not refill in between: the returned errors and the remaining capacity at the end.
\<close>

fun serveRequests :: "range_env \<Rightarrow> BeaconBlocksByRangeRequest \<Rightarrow> nat \<Rightarrow> int
    \<Rightarrow> (error option list \<times> int) option" where
  "serveRequests s m 0 r = Some ([], r)"
| "serveRequests s m (Suc n) r =
     (case beaconBlocksByRangeRPCHandler s (Some r) m of
        None \<Rightarrow> None
      | Some res \<Rightarrow>
          (case serveRequests s m n (bucket res) of
             None \<Rightarrow> None
           | Some (errs, r') \<Rightarrow> Some (ret res # errs, r')))"

subsection \<open>Range client\<close>

text \<open>
  What \<^verbatim>\<open>ReadChunkedBlock\<close> yields on the response stream, in order: a decoded
  block or an error.  The end of the list is the end of the stream (\<^verbatim>\<open>io.EOF\<close>).
\<close>

datatype read_result = ReadBlock block | ReadError error

text \<open>
  The receive loop of \<^verbatim>\<open>SendBeaconBlocksByRangeRequest\<close>: \<open>i\<close> is the chunk
  counter, \<open>prevSlot\<close> the slot of the previous chunk and \<open>blocks\<close> the blocks
  appended so far.  \<open>mx\<close> is the network parameter \<^verbatim>\<open>MaxRequestBlocks\<close> and
  \<open>blockProcessor\<close> the optional callback (\<open>None\<close> for nil).  Go evaluates
  \<^verbatim>\<open>(blk.Block.Slot-prevSlot)%req.Step\<close> only when the chunk is not the first and
  \<^verbatim>\<open>prevSlot >= blk.Block.Slot\<close> is false, and panics there if the step is 0.
\<close>

fun receiveChunks :: "u64 \<Rightarrow> BeaconBlocksByRangeRequest \<Rightarrow> (block \<Rightarrow> error option) option
    \<Rightarrow> u64 \<Rightarrow> u64 \<Rightarrow> block list \<Rightarrow> read_result list \<Rightarrow> error + block list" where
  "receiveChunks mx req blockProcessor i prevSlot blocks [] = Inr blocks"
| "receiveChunks mx req blockProcessor i prevSlot blocks (ReadError err # chunks) = Inl err"
| "receiveChunks mx req blockProcessor i prevSlot blocks (ReadBlock blk # chunks) =
     (let isFirstChunk = (i = 0)
      in if i \<ge> Count req \<or> i \<ge> mx then Inl ErrInvalidFetchedData
         else if Slot blk < StartSlot req \<or> Slot blk \<ge> StartSlot req + Count req * Step req
         then Inl ErrInvalidFetchedData
         else if \<not> isFirstChunk \<and> \<not> prevSlot \<ge> Slot blk \<and> Step req = 0
         then Inl PanicDivideByZero
         else if \<not> isFirstChunk \<and> (prevSlot \<ge> Slot blk \<or> (Slot blk - prevSlot) mod Step req \<noteq> 0)
         then Inl ErrInvalidFetchedData
         else (case (case blockProcessor of None \<Rightarrow> None | Some f \<Rightarrow> f blk) of
                 Some err \<Rightarrow> Inl err
               | None \<Rightarrow>
                   receiveChunks mx req blockProcessor (i + 1) (Slot blk) (blocks @ [blk]) chunks))"

text \<open>
  \<^verbatim>\<open>SendBeaconBlocksByRangeRequest\<close>: \<open>sent\<close> is the outcome of
  \<^verbatim>\<open>p2pProvider.Send\<close>, an error or the response stream.  After a successful send
  and before the first read the code allocates the block list with
  \<^verbatim>\<open>make([]*ethpb.SignedBeaconBlock, 0, req.Count)\<close>, which fails when the
  capacity is more than the runtime can grant (the panic
  \<^verbatim>\<open>makeslice: cap out of range\<close>, or the runtime's out-of-memory error);
  \<open>maxCap\<close> is the largest capacity that is granted to a slice of pointers, a
  property of the Go runtime and the platform (it is below \<open>2 ^ 63\<close>, since the
  capacity must fit Go's \<^verbatim>\<open>int\<close>).  The result is the error or panic (with a nil
  block list) or the accumulated blocks.
\<close>

definition SendBeaconBlocksByRangeRequest :: "u64 \<Rightarrow> u64 \<Rightarrow> BeaconBlocksByRangeRequest
    \<Rightarrow> (block \<Rightarrow> error option) option \<Rightarrow> error + read_result list \<Rightarrow> error + block list" where
  "SendBeaconBlocksByRangeRequest mx maxCap req blockProcessor sent =
     (case sent of
        Inl err \<Rightarrow> Inl err
      | Inr chunks \<Rightarrow>
          if Count req > maxCap then Inl PanicMakeSlice
          else receiveChunks mx req blockProcessor 0 0 [] chunks)"

text \<open>
  The conditions on the \<open>k\<close>-th chunk of a response \<open>blks\<close>, with the slots read as
  natural numbers: the index is below the count and below the maximum, the slot is
  at least the start slot and below the upper bound \<open>hi\<close>, and a chunk after the
  first has a larger slot than its predecessor, at a distance that is a multiple of
  the step.
\<close>

definition chunk_in_order :: "u64 \<Rightarrow> BeaconBlocksByRangeRequest \<Rightarrow> nat \<Rightarrow> block list \<Rightarrow> nat \<Rightarrow> bool" where
  "chunk_in_order mx req hi blks k \<longleftrightarrow>
     k < unat (Count req) \<and> k < unat mx \<and>
     unat (StartSlot req) \<le> unat (Slot (blks ! k)) \<and> unat (Slot (blks ! k)) < hi \<and>
     (0 < k \<longrightarrow> unat (Slot (blks ! (k - 1))) < unat (Slot (blks ! k)) \<and>
              unat (Step req) dvd (unat (Slot (blks ! k)) - unat (Slot (blks ! (k - 1)))))"

text \<open>
  The upper bound of the requested range as the claim reads it, and as the code
  computes it in 64 bits.
\<close>

definition range_end :: "BeaconBlocksByRangeRequest \<Rightarrow> nat" where
  "range_end req = unat (StartSlot req) + unat (Count req) * unat (Step req)"

definition range_end_u64 :: "BeaconBlocksByRangeRequest \<Rightarrow> nat" where
  "range_end_u64 req = (unat (StartSlot req) + unat (Count req) * unat (Step req)) mod 2 ^ 64"

definition response_in_order :: "u64 \<Rightarrow> BeaconBlocksByRangeRequest \<Rightarrow> nat \<Rightarrow> block list \<Rightarrow> bool" where
  "response_in_order mx req hi blks \<longleftrightarrow> (\<forall>k < length blks. chunk_in_order mx req hi blks k)"

text \<open>
  A concrete server for examples: the constants of the reference network, slot 1000,
  a batch limit \<open>lim\<close>, and a store holding two canonical blocks, at slots 1 and 2
  with roots 11 and 12, where the parent root of the second (77) is not the root of
  the first.  Deduplication and sorting have nothing to do on this store.
\<close>

definition blk1 :: block where
  "blk1 = \<lparr>Slot = 1, ProposerIndex = 0, ParentRoot = 0, Body = 0\<rparr>"

definition blk2 :: block where
  "blk2 = \<lparr>Slot = 2, ProposerIndex = 0, ParentRoot = 77, Body = 0\<rparr>"

definition test_env :: "u64 \<Rightarrow> range_env" where
  "test_env lim =
     \<lparr>rangeLimit = 1024, MaxRequestBlocks = 1024, BlockBatchLimit = lim, CurrentSlot = 1000,
      db_Blocks = (\<lambda>s e st. if s = 1 \<and> e = 1 then Inr ([blk1], [11])
                         else if s = 2 \<and> e = 2 then Inr ([blk2], [12])
                         else if s = 1 \<and> e = 2 then Inr ([blk1, blk2], [11, 12])
                         else Inr ([], [])),
      retrieveGenesisBlock = Inl ErrGeneric,
      dedupBlocksAndRoots = (\<lambda>bs rs. Inr (bs, rs)),
      sortBlocksAndRoots = (\<lambda>bs rs. (bs, rs)),
      IsCanonical = (\<lambda>r. Inr True),
      chunkWriter = (\<lambda>b. None)\<rparr>"

subsection \<open>Round-robin driver\<close>

text \<open>
  What the driver and the gossip validator read from the chain service, the block
  store and the hashing of blocks.  \<open>FinalizedStartSlot\<close> is
  \<^verbatim>\<open>helpers.StartSlot(s.chain.FinalizedCheckpt().Epoch)\<close>, which can fail.
\<close>

record node_env =
  HeadSlot :: u64
  FinalizedStartSlot :: "error + u64"
  HasBlock :: "root \<Rightarrow> bool"
  HasInitSyncBlock :: "root \<Rightarrow> bool"
  HashTreeRoot :: "block \<Rightarrow> error + root"

text \<open>\<^verbatim>\<open>isProcessedBlock\<close>.\<close>

definition isProcessedBlock :: "'a node_env_scheme \<Rightarrow> block \<Rightarrow> root \<Rightarrow> bool" where
  "isProcessedBlock s blk blkRoot =
     (case FinalizedStartSlot s of
        Inl err \<Rightarrow> False
      | Inr finalizedSlot \<Rightarrow>
          if Slot blk \<le> finalizedSlot \<or> (HasBlock s blkRoot \<or> HasInitSyncBlock s blkRoot)
          then True else False)"

text \<open>
  The first loop of \<^verbatim>\<open>processBatchedBlocks\<close>, which drops processed blocks from
  the front: \<open>firstBlock # rest\<close> is the slice \<^verbatim>\<open>blks\<close> and \<open>blkRoot\<close> the root of
  its first block.
\<close>

fun skipProcessed :: "'a node_env_scheme \<Rightarrow> block \<Rightarrow> block list \<Rightarrow> root
    \<Rightarrow> error + (block \<times> block list \<times> root)" where
  "skipProcessed s firstBlock rest blkRoot =
     (if HeadSlot s \<ge> Slot firstBlock \<and> isProcessedBlock s firstBlock blkRoot
      then (case rest of
              [] \<Rightarrow> Inl ErrNoGoodBlocks
            | b # rest' \<Rightarrow>
                (case HashTreeRoot s b of
                   Inl err \<Rightarrow> Inl err
                 | Inr blkRoot' \<Rightarrow> skipProcessed s b rest' blkRoot'))
      else Inr (firstBlock, rest, blkRoot))"

text \<open>
  The second loop, over \<^verbatim>\<open>blks[1:]\<close>: \<open>prev\<close> is \<^verbatim>\<open>blockRoots[i-1]\<close>, and the
  result is the roots \<^verbatim>\<open>blockRoots[1:]\<close>.
\<close>

fun linkRoots :: "'a node_env_scheme \<Rightarrow> root \<Rightarrow> block list \<Rightarrow> error + root list" where
  "linkRoots s prev [] = Inr []"
| "linkRoots s prev (b # bs) =
     (if ParentRoot b \<noteq> prev then Inl ErrNonLinear
      else (case HashTreeRoot s b of
              Inl err \<Rightarrow> Inl err
            | Inr blkRoot \<Rightarrow>
                (case linkRoots s blkRoot bs of
                   Inl err \<Rightarrow> Inl err
                 | Inr roots \<Rightarrow> Inr (blkRoot # roots))))"

text \<open>
  \<^verbatim>\<open>processBatchedBlocks\<close>.  The result is the returned error and the log of the
  calls of the batch receiver \<^verbatim>\<open>bFunc\<close>, each with the blocks and roots it was
  given.  The progress log and rate counter of \<^verbatim>\<open>logBatchSyncStatus\<close> do not
  influence the result.
\<close>

definition processBatchedBlocks :: "'a node_env_scheme \<Rightarrow> block list
    \<Rightarrow> (block list \<Rightarrow> root list \<Rightarrow> error option)
    \<Rightarrow> error option \<times> (block list \<times> root list) list" where
  "processBatchedBlocks s blks bFunc =
     (case blks of
        [] \<Rightarrow> (Some ErrNoBlocksProvided, [])
      | firstBlock # rest \<Rightarrow>
          (case HashTreeRoot s firstBlock of
             Inl err \<Rightarrow> (Some err, [])
           | Inr blkRoot \<Rightarrow>
               (case skipProcessed s firstBlock rest blkRoot of
                  Inl err \<Rightarrow> (Some err, [])
                | Inr (firstBlock', rest', blkRoot') \<Rightarrow>
                    let parentRoot = ParentRoot firstBlock'
                    in if \<not> HasBlock s parentRoot \<and> \<not> HasInitSyncBlock s parentRoot
                       then (Some ErrParentDoesNotExist, [])
                       else (case linkRoots s blkRoot' rest' of
                               Inl err \<Rightarrow> (Some err, [])
                             | Inr roots \<Rightarrow>
                                 (bFunc (firstBlock' # rest') (blkRoot' # roots),
                                  [(firstBlock' # rest', blkRoot' # roots)])))))"

text \<open>
  The conditions of the batch check, stated on the batch itself.  A leading block is
  already processed when the head is at or past its slot and \<^verbatim>\<open>isProcessedBlock\<close>
  holds of it; the batch that remains is what is left after dropping such blocks from
  the front.
\<close>

definition already_processed :: "'a node_env_scheme \<Rightarrow> block \<Rightarrow> bool" where
  "already_processed s b =
     (case HashTreeRoot s b of
        Inl err \<Rightarrow> False
      | Inr blkRoot \<Rightarrow> HeadSlot s \<ge> Slot b \<and> isProcessedBlock s b blkRoot)"

definition remaining_batch :: "'a node_env_scheme \<Rightarrow> block list \<Rightarrow> block list" where
  "remaining_batch s blks = dropWhile (already_processed s) blks"

definition parent_known :: "'a node_env_scheme \<Rightarrow> block \<Rightarrow> bool" where
  "parent_known s b \<longleftrightarrow> HasBlock s (ParentRoot b) \<or> HasInitSyncBlock s (ParentRoot b)"

definition linear_batch :: "'a node_env_scheme \<Rightarrow> block list \<Rightarrow> bool" where
  "linear_batch s bs \<longleftrightarrow>
     (\<forall>i. Suc i < length bs \<longrightarrow> HashTreeRoot s (bs ! i) = Inr (ParentRoot (bs ! Suc i)))"

definition batch_ok :: "'a node_env_scheme \<Rightarrow> block list \<Rightarrow> bool" where
  "batch_ok s blks \<longleftrightarrow>
     remaining_batch s blks \<noteq> [] \<and>
     parent_known s (hd (remaining_batch s blks)) \<and>
     linear_batch s (remaining_batch s blks)"

text \<open>
  A concrete node for examples: head at slot 5, finalized slot 0, the root of a block
  is its slot plus 100, and the store holds the blocks with roots 100 to 105.
\<close>

definition test_node :: node_env where
  "test_node =
     \<lparr>HeadSlot = 5, FinalizedStartSlot = Inr 0,
      HasBlock = (\<lambda>r. 100 \<le> r \<and> r \<le> 105),
      HasInitSyncBlock = (\<lambda>r. False),
      HashTreeRoot = (\<lambda>b. Inr (ucast (Slot b) + 100))\<rparr>"

definition chain_block :: "u64 \<Rightarrow> block" where
  "chain_block n = \<lparr>Slot = n, ProposerIndex = 0, ParentRoot = ucast n + 99, Body = 0\<rparr>"

subsection \<open>Gossip admission\<close>

text \<open>
  The seen-block and bad-block caches are bounded LRU caches of an external library;
  every stored value is \<^verbatim>\<open>true\<close>, so a cache is its capacity and its keys, most
  recently used first.  \<open>Get\<close> reports whether the key is present and moves it to
  the front; \<open>Add\<close> moves a present key to the front, and otherwise puts the key at
  the front and evicts the oldest key when the capacity is exceeded.
\<close>

record 'k lru =
  lru_size :: nat
  lru_keys :: "'k list"

definition lru_Get :: "'k \<Rightarrow> 'k lru \<Rightarrow> bool \<times> 'k lru" where
  "lru_Get k c =
     (if k \<in> set (lru_keys c) then (True, c\<lparr>lru_keys := k # remove1 k (lru_keys c)\<rparr>)
      else (False, c))"

definition lru_Add :: "'k \<Rightarrow> 'k lru \<Rightarrow> 'k lru" where
  "lru_Add k c =
     (if k \<in> set (lru_keys c) then c\<lparr>lru_keys := k # remove1 k (lru_keys c)\<rparr>
      else c\<lparr>lru_keys := take (lru_size c) (k # lru_keys c)\<rparr>)"

text \<open>
  The mutable state of the sync service that block validation touches.  The key of
  the seen-block cache is the concatenation of the 32-byte encodings of slot and
  proposer index, an injective image of the pair, modelled by the pair itself.  The
  pending queue (with its \<^verbatim>\<open>seenPendingBlocks\<close> map) is kept abstract;
  \<open>blockFeed\<close> lists the blocks announced on the block feed.
\<close>

record 'p gossip_state =
  seenBlockCache :: "(u64 \<times> u64) lru"
  badBlockCache :: "root lru"
  pendingQueue :: 'p
  blockFeed :: "block list"

text \<open>
  The collaborators of the validator, on top of those of \<open>node_env\<close>: the node's
  peer id, the initial-sync flag, the pending queue's operations, the slot-time
  checks (which read the clock), and the steps of the full validation against the
  parent state.
\<close>

record ('p, 'st) gossip_env = node_env +
  PeerID :: nat
  Syncing :: bool
  seenPendingBlocks :: "'p \<Rightarrow> root \<Rightarrow> bool"
  insertBlockToPendingQueue :: "u64 \<Rightarrow> block \<Rightarrow> root \<Rightarrow> 'p \<Rightarrow> error option \<times> 'p"
  VerifySlotTime :: "u64 \<Rightarrow> error option"
  captureArrivalTimeMetric :: "u64 \<Rightarrow> error option"
  VerifyBlkDescendant :: "root \<Rightarrow> error option"
  HasStateSummaryDB :: "root \<Rightarrow> bool"
  HasStateSummaryCache :: "root \<Rightarrow> bool"
  RecoverStateSummary :: "root \<Rightarrow> error option"
  StateByRoot :: "root \<Rightarrow> error + 'st"
  VerifyBlockSignature :: "'st \<Rightarrow> block \<Rightarrow> error option"
  ProcessSlots :: "'st \<Rightarrow> u64 \<Rightarrow> error + 'st"
  BeaconProposerIndex :: "'st \<Rightarrow> error + u64"

text \<open>
  \<^verbatim>\<open>hasSeenBlockIndexSlot\<close>, \<^verbatim>\<open>setSeenBlockIndexSlot\<close>, \<^verbatim>\<open>hasBadBlock\<close> and
  \<^verbatim>\<open>setBadBlock\<close>.  A context is the value of its \<^verbatim>\<open>Err()\<close>: \<open>None\<close> while it is
  live, the error once it is cancelled or past its deadline.
\<close>

definition hasSeenBlockIndexSlot :: "u64 \<Rightarrow> u64 \<Rightarrow> 'p gossip_state \<Rightarrow> bool \<times> 'p gossip_state" where
  "hasSeenBlockIndexSlot slot proposerIdx st =
     (case lru_Get (slot, proposerIdx) (seenBlockCache st) of
        (seen, c) \<Rightarrow> (seen, st\<lparr>seenBlockCache := c\<rparr>))"

definition setSeenBlockIndexSlot :: "u64 \<Rightarrow> u64 \<Rightarrow> 'p gossip_state \<Rightarrow> 'p gossip_state" where
  "setSeenBlockIndexSlot slot proposerIdx st =
     st\<lparr>seenBlockCache := lru_Add (slot, proposerIdx) (seenBlockCache st)\<rparr>"

definition hasBadBlock :: "root \<Rightarrow> 'p gossip_state \<Rightarrow> bool \<times> 'p gossip_state" where
  "hasBadBlock r st =
     (case lru_Get r (badBlockCache st) of
        (seen, c) \<Rightarrow> (seen, st\<lparr>badBlockCache := c\<rparr>))"

definition setBadBlock :: "error option \<Rightarrow> root \<Rightarrow> 'p gossip_state \<Rightarrow> 'p gossip_state" where
  "setBadBlock ctx r st =
     (if ctx \<noteq> None then st
      else st\<lparr>badBlockCache := lru_Add r (badBlockCache st)\<rparr>)"

text \<open>What the two caches hold, whatever the order of use.\<close>

definition seen_pairs :: "'p gossip_state \<Rightarrow> (u64 \<times> u64) set" where
  "seen_pairs st = set (lru_keys (seenBlockCache st))"

definition bad_roots :: "'p gossip_state \<Rightarrow> root set" where
  "bad_roots st = set (lru_keys (badBlockCache st))"

text \<open>\<^verbatim>\<open>validateBeaconBlock\<close>: the returned error and the state it leaves.\<close>

definition validateBeaconBlock :: "('p, 'st) gossip_env \<Rightarrow> error option \<Rightarrow> block \<Rightarrow> root
    \<Rightarrow> 'p gossip_state \<Rightarrow> error option \<times> 'p gossip_state" where
  "validateBeaconBlock s ctx blk blockRoot st =
     (case VerifyBlkDescendant s (ParentRoot blk) of
        Some err \<Rightarrow> (Some err, setBadBlock ctx blockRoot st)
      | None \<Rightarrow>
          (case (if \<not> HasStateSummaryDB s (ParentRoot blk) \<and> \<not> HasStateSummaryCache s (ParentRoot blk)
                 then RecoverStateSummary s (ParentRoot blk) else None) of
             Some err \<Rightarrow> (Some err, st)
           | None \<Rightarrow>
               (case StateByRoot s (ParentRoot blk) of
                  Inl err \<Rightarrow> (Some err, st)
                | Inr parentState \<Rightarrow>
                    (case VerifyBlockSignature s parentState blk of
                       Some err \<Rightarrow> (Some err, setBadBlock ctx blockRoot st)
                     | None \<Rightarrow>
                         (case ProcessSlots s parentState (Slot blk) of
                            Inl err \<Rightarrow> (Some err, st)
                          | Inr parentState' \<Rightarrow>
                              (case BeaconProposerIndex s parentState' of
                                 Inl err \<Rightarrow> (Some err, st)
                               | Inr idx \<Rightarrow>
                                   if ProposerIndex blk \<noteq> idx
                                   then (Some ErrIncorrectProposerIndex, setBadBlock ctx blockRoot st)
                                   else (None, st)))))))"

text \<open>
  A pubsub message is what decoding and the type assertion make of it: an
  undecodable payload, a message of another type, a signed block without a block, or
  a signed block.
\<close>

datatype pubsub_msg = Undecodable error | NotSignedBlock | NilBlock | SignedBlock block

datatype ValidationResult = ValidationAccept | ValidationReject | ValidationIgnore

text \<open>
  \<^verbatim>\<open>validateBeaconBlockPubSub\<close>: the classification of a message \<open>msg\<close> received
  from peer \<open>pid\<close>, and the state the run leaves.  (On acceptance the code also
  stores the block in the message for the subscriber.)
\<close>

definition validateBeaconBlockPubSub :: "('p, 'st) gossip_env \<Rightarrow> error option \<Rightarrow> nat \<Rightarrow> pubsub_msg
    \<Rightarrow> 'p gossip_state \<Rightarrow> ValidationResult \<times> 'p gossip_state" where
  "validateBeaconBlockPubSub s ctx pid msg st =
     (if pid = PeerID s then (ValidationAccept, st)
      else if Syncing s then (ValidationIgnore, st)
      else (case msg of
              Undecodable err \<Rightarrow> (ValidationReject, st)
            | NotSignedBlock \<Rightarrow> (ValidationReject, st)
            | NilBlock \<Rightarrow> (ValidationReject, st)
            | SignedBlock blk \<Rightarrow>
                (case hasSeenBlockIndexSlot (Slot blk) (ProposerIndex blk)
                        (st\<lparr>blockFeed := blockFeed st @ [blk]\<rparr>) of
                   (True, st1) \<Rightarrow> (ValidationIgnore, st1)
                 | (False, st1) \<Rightarrow>
                     (case HashTreeRoot s blk of
                        Inl err \<Rightarrow> (ValidationIgnore, st1)
                      | Inr blockRoot \<Rightarrow>
                          if HasBlock s blockRoot then (ValidationIgnore, st1)
                          else (case hasBadBlock (ParentRoot blk) st1 of
                                  (True, st2) \<Rightarrow> (ValidationReject, setBadBlock ctx blockRoot st2)
                                | (False, st2) \<Rightarrow>
                                    if seenPendingBlocks s (pendingQueue st2) blockRoot
                                    then (ValidationIgnore, st2)
                                    else if VerifySlotTime s (Slot blk) \<noteq> None
                                    then (ValidationIgnore, st2)
                                    else if captureArrivalTimeMetric s (Slot blk) \<noteq> None
                                    then (ValidationIgnore, st2)
                                    else (case FinalizedStartSlot s of
                                            Inl err \<Rightarrow> (ValidationIgnore, st2)
                                          | Inr startSlot \<Rightarrow>
                                              if startSlot \<ge> Slot blk then (ValidationIgnore, st2)
                                              else if \<not> HasBlock s (ParentRoot blk)
                                              then (case insertBlockToPendingQueue s (Slot blk) blk
                                                           blockRoot (pendingQueue st2) of
                                                      (err, q) \<Rightarrow>
                                                        (ValidationIgnore, st2\<lparr>pendingQueue := q\<rparr>))
                                              else (case validateBeaconBlock s ctx blk blockRoot st2 of
                                                      (Some err, st3) \<Rightarrow> (ValidationReject, st3)
                                                    | (None, st3) \<Rightarrow> (ValidationAccept, st3))))))))"

text \<open>
  A concrete node for examples: peer id 1, synced, an empty store except for the
  parent root 50, every check of the full validation passing for proposer index 7,
  and empty caches of capacity 10.
\<close>

definition test_gossip :: "(unit, unit) gossip_env" where
  "test_gossip =
     \<lparr>HeadSlot = 5, FinalizedStartSlot = Inr 0,
      HasBlock = (\<lambda>r. r = 50),
      HasInitSyncBlock = (\<lambda>r. False),
      HashTreeRoot = (\<lambda>b. Inr (ucast (Slot b) + 100)),
      PeerID = 1, Syncing = False,
      seenPendingBlocks = (\<lambda>q r. False),
      insertBlockToPendingQueue = (\<lambda>slot b r q. (None, q)),
      VerifySlotTime = (\<lambda>slot. None),
      captureArrivalTimeMetric = (\<lambda>slot. None),
      VerifyBlkDescendant = (\<lambda>r. None),
      HasStateSummaryDB = (\<lambda>r. True),
      HasStateSummaryCache = (\<lambda>r. True),
      RecoverStateSummary = (\<lambda>r. None),
      StateByRoot = (\<lambda>r. Inr ()),
      VerifyBlockSignature = (\<lambda>st b. None),
      ProcessSlots = (\<lambda>st slot. Inr ()),
      BeaconProposerIndex = (\<lambda>st. Inr 7)\<rparr>"

definition gossip_block :: block where
  "gossip_block = \<lparr>Slot = 3, ProposerIndex = 7, ParentRoot = 50, Body = 0\<rparr>"

definition empty_state :: "unit gossip_state" where
  "empty_state =
     \<lparr>seenBlockCache = \<lparr>lru_size = 10, lru_keys = []\<rparr>,
      badBlockCache = \<lparr>lru_size = 10, lru_keys = []\<rparr>,
      pendingQueue = (), blockFeed = []\<rparr>"

subsection \<open>Sync queue\<close>

text \<open>
  Modelled from the spec: the state machines of the sync queue and their event
  handlers.  The queue's code (\<^verbatim>\<open>blocks_queue.go\<close>, \<^verbatim>\<open>fsm.go\<close>) is not among the
  sources; only its tests are.  The definitions follow the transition table of the
  spec's section 4.5 and the data model of its section 3, and agree with the handler
  tests of \<^verbatim>\<open>blocks_queue_test.go\<close> (each handler returns the machine's state
  unchanged with the context's error under an expired context, and with
  \<^verbatim>\<open>errInvalidInitialState\<close> when the machine is not in the handler's source
  state).
\<close>

datatype stateID = stateNew | stateScheduled | stateDataParsed | stateSkipped | stateSent

record stateMachine =
  fsm_start :: u64
  fsm_state :: stateID
  fsm_pid :: nat
  fsm_blocks :: "block list"
  fsm_updated :: nat

record fetchRequestResponse =
  resp_pid :: nat
  resp_start :: u64
  resp_blocks :: "block list"
  resp_err :: "error option"

text \<open>
  The queue: its machines (an arena addressed by start slot), the highest expected
  slot, the batches published on the output channel (each with the start slot of
  the machine that published it), the fetch requests enqueued and the peers
  penalized.
\<close>

record blocksQueue =
  machines :: "stateMachine list"
  highestExpectedSlot :: u64
  fetchedData :: "(u64 \<times> nat \<times> block list) list"
  fetchRequests :: "u64 list"
  penalized :: "nat list"

text \<open>
  What the handlers take from outside: the two timeouts, whether enough peers are
  available, the re-arrangement of the window (kept abstract), and whether the
  empty-list row of the table is tried before the ordering rows: the table does not
  order its rows, and the properties below are proved for both readings.
\<close>

record queue_env =
  skippedMachineTimeout :: nat
  staleEpochTimeout :: nat
  enoughPeers :: bool
  resetWindow :: "blocksQueue \<Rightarrow> blocksQueue"
  emptyRowFirst :: bool


definition earlier_pending :: "blocksQueue \<Rightarrow> u64 \<Rightarrow> bool" where
  "earlier_pending q s \<longleftrightarrow>
     list_ex (\<lambda>x. fsm_start x < s \<and>
                  (fsm_state x = stateNew \<or> fsm_state x = stateScheduled \<or> fsm_state x = stateDataParsed))
       (machines q)"

text \<open>
  The previous machine of a start slot \<open>s\<close>: the one with the largest start slot
  below \<open>s\<close>.
\<close>

fun largest_below :: "u64 \<Rightarrow> stateMachine list \<Rightarrow> u64 option" where
  "largest_below s [] = None"
| "largest_below s (x # xs) =
     (case largest_below s xs of
        None \<Rightarrow> (if fsm_start x < s then Some (fsm_start x) else None)
      | Some b \<Rightarrow> (if fsm_start x < s \<and> b < fsm_start x then Some (fsm_start x) else Some b))"

definition setState :: "u64 \<Rightarrow> stateID \<Rightarrow> nat \<Rightarrow> stateMachine list \<Rightarrow> stateMachine list" where
  "setState key st now ms =
     map (\<lambda>x. if fsm_start x = key
              then x\<lparr>fsm_state := st,
                     fsm_updated := (if fsm_state x = st then fsm_updated x else now)\<rparr>
              else x) ms"

definition resetPrevious :: "u64 \<Rightarrow> nat \<Rightarrow> blocksQueue \<Rightarrow> blocksQueue" where
  "resetPrevious s now q =
     (case largest_below s (machines q) of
        None \<Rightarrow> q
      | Some p \<Rightarrow> q\<lparr>machines := setState p stateNew now (machines q)\<rparr>)"

text \<open>
  The handlers.  Each takes the context (the value of its \<^verbatim>\<open>Err()\<close>), the time,
  the queue and the machine, and returns the next state with the error, the machine
  with what the handler attached to it, and the queue with the side effects.
\<close>

definition onScheduleEvent :: "queue_env \<Rightarrow> error option \<Rightarrow> nat \<Rightarrow> blocksQueue \<Rightarrow> stateMachine
    \<Rightarrow> (stateID \<times> error option) \<times> stateMachine \<times> blocksQueue" where
  "onScheduleEvent e ctx now q m =
     (case ctx of
        Some err \<Rightarrow> ((fsm_state m, Some err), m, q)
      | None \<Rightarrow>
          if fsm_state m \<noteq> stateNew then ((fsm_state m, Some errInvalidInitialState), m, q)
          else if fsm_start m > highestExpectedSlot q
          then ((stateSkipped, Some errSlotIsTooHigh), m, q)
          else ((stateScheduled, None), m, q\<lparr>fetchRequests := fetchRequests q @ [fsm_start m]\<rparr>))"

definition onDataReceivedEvent :: "queue_env \<Rightarrow> error option \<Rightarrow> nat \<Rightarrow> blocksQueue \<Rightarrow> stateMachine
    \<Rightarrow> fetchRequestResponse option
    \<Rightarrow> (stateID \<times> error option) \<times> stateMachine \<times> blocksQueue" where
  "onDataReceivedEvent e ctx now q m input =
     (case ctx of
        Some err \<Rightarrow> ((fsm_state m, Some err), m, q)
      | None \<Rightarrow>
          if fsm_state m \<noteq> stateScheduled then ((fsm_state m, Some errInvalidInitialState), m, q)
          else (case input of
                  None \<Rightarrow> ((fsm_state m, Some errInputNotFetchRequestParams), m, q)
                | Some response \<Rightarrow>
                    (case resp_err response of
                       Some err \<Rightarrow>
                         if err = errSlotIsTooHigh
                         then ((stateScheduled, Some err), m, resetPrevious (resp_start response) now q)
                         else if err = ErrInvalidFetchedData
                         then ((stateScheduled, Some err), m,
                               q\<lparr>penalized := penalized q @ [resp_pid response]\<rparr>)
                         else ((stateScheduled, Some err), m, q)
                     | None \<Rightarrow>
                         ((stateDataParsed, None),
                          m\<lparr>fsm_blocks := resp_blocks response, fsm_pid := resp_pid response\<rparr>, q))))"

definition send :: "blocksQueue \<Rightarrow> stateMachine \<Rightarrow> (stateID \<times> error option) \<times> stateMachine \<times> blocksQueue" where
  "send q m =
     ((stateSent, None), m,
      q\<lparr>fetchedData := fetchedData q @ [(fsm_start m, fsm_pid m, fsm_blocks m)]\<rparr>)"

definition onReadyToSendEvent :: "queue_env \<Rightarrow> error option \<Rightarrow> nat \<Rightarrow> blocksQueue \<Rightarrow> stateMachine
    \<Rightarrow> (stateID \<times> error option) \<times> stateMachine \<times> blocksQueue" where
  "onReadyToSendEvent e ctx now q m =
     (case ctx of
        Some err \<Rightarrow> ((fsm_state m, Some err), m, q)
      | None \<Rightarrow>
          if fsm_state m \<noteq> stateDataParsed then ((fsm_state m, Some errInvalidInitialState), m, q)
          else if emptyRowFirst e
          then (if fsm_blocks m = [] then ((stateSkipped, None), m, q)
                else if earlier_pending q (fsm_start m) then ((stateDataParsed, None), m, q)
                else send q m)
          else (if earlier_pending q (fsm_start m) then ((stateDataParsed, None), m, q)
                else if fsm_blocks m = [] then ((stateSkipped, None), m, q)
                else send q m))"

definition isLast :: "blocksQueue \<Rightarrow> stateMachine \<Rightarrow> bool" where
  "isLast q m \<longleftrightarrow> list_all (\<lambda>x. fsm_start x \<le> fsm_start m) (machines q)"

definition onProcessSkippedEvent :: "queue_env \<Rightarrow> error option \<Rightarrow> nat \<Rightarrow> blocksQueue \<Rightarrow> stateMachine
    \<Rightarrow> (stateID \<times> error option) \<times> stateMachine \<times> blocksQueue" where
  "onProcessSkippedEvent e ctx now q m =
     (case ctx of
        Some err \<Rightarrow> ((fsm_state m, Some err), m, q)
      | None \<Rightarrow>
          if fsm_state m \<noteq> stateSkipped then ((fsm_state m, Some errInvalidInitialState), m, q)
          else if \<not> isLast q m
          then (if now - fsm_updated m \<ge> skippedMachineTimeout e
                then ((stateNew, None), m, q) else ((stateSkipped, None), m, q))
          else if \<not> list_all (\<lambda>x. fsm_state x = stateSkipped) (machines q)
          then ((stateSkipped, None), m, q)
          else if \<not> enoughPeers e then ((stateSkipped, Some errNoRequiredPeers), m, q)
          else ((stateSkipped, None), m, resetWindow e q))"

definition onCheckStaleEvent :: "queue_env \<Rightarrow> error option \<Rightarrow> nat \<Rightarrow> blocksQueue \<Rightarrow> stateMachine
    \<Rightarrow> (stateID \<times> error option) \<times> stateMachine \<times> blocksQueue" where
  "onCheckStaleEvent e ctx now q m =
     (case ctx of
        Some err \<Rightarrow> ((fsm_state m, Some err), m, q)
      | None \<Rightarrow>
          if fsm_state m \<noteq> stateSent then ((fsm_state m, Some errInvalidInitialState), m, q)
          else if now - fsm_updated m \<ge> staleEpochTimeout e then ((stateSkipped, None), m, q)
          else ((stateSent, None), m, q))"

text \<open>
  The event loop applies an event to the machine with a given start slot: it runs
  the handler and stores the machine it returns, in the state it returns.
\<close>

datatype event =
    schedule
  | data_received fetchRequestResponse
  | ready_to_send
  | process_skipped
  | check_stale

definition handle :: "queue_env \<Rightarrow> error option \<Rightarrow> nat \<Rightarrow> blocksQueue \<Rightarrow> stateMachine \<Rightarrow> event
    \<Rightarrow> (stateID \<times> error option) \<times> stateMachine \<times> blocksQueue" where
  "handle e ctx now q m ev =
     (case ev of
        schedule \<Rightarrow> onScheduleEvent e ctx now q m
      | data_received response \<Rightarrow> onDataReceivedEvent e ctx now q m (Some response)
      | ready_to_send \<Rightarrow> onReadyToSendEvent e ctx now q m
      | process_skipped \<Rightarrow> onProcessSkippedEvent e ctx now q m
      | check_stale \<Rightarrow> onCheckStaleEvent e ctx now q m)"

definition storeMachine :: "stateMachine \<Rightarrow> stateID \<Rightarrow> nat \<Rightarrow> stateMachine list \<Rightarrow> stateMachine list" where
  "storeMachine m st now ms =
     map (\<lambda>x. if fsm_start x = fsm_start m
              then m\<lparr>fsm_state := st,
                     fsm_updated := (if fsm_state m = st then fsm_updated m else now)\<rparr>
              else x) ms"

definition trigger :: "queue_env \<Rightarrow> error option \<Rightarrow> blocksQueue \<Rightarrow> nat \<times> u64 \<times> event
    \<Rightarrow> blocksQueue \<times> error option" where
  "trigger e ctx q tke =
     (case tke of
        (now, key, ev) \<Rightarrow>
          (case find (\<lambda>x. fsm_start x = key) (machines q) of
             None \<Rightarrow> (q, Some errNoMachine)
           | Some m \<Rightarrow>
               (case handle e ctx now q m ev of
                  ((st, err), m', q') \<Rightarrow>
                    (q'\<lparr>machines := storeMachine m' st now (machines q')\<rparr>, err))))"


text \<open>The start slots of the batches on the output channel, in the order of publication.\<close>

definition emitted_starts :: "blocksQueue \<Rightarrow> u64 list" where
  "emitted_starts q = map fst (fetchedData q)"





text \<open>The previous machine of \<open>s\<close> in a queue, stated on the machines.\<close>

definition is_previous :: "stateMachine list \<Rightarrow> u64 \<Rightarrow> stateMachine \<Rightarrow> bool" where
  "is_previous ms s p \<longleftrightarrow>
     p \<in> set ms \<and> fsm_start p < s \<and> (\<forall>x \<in> set ms. fsm_start x < s \<longrightarrow> fsm_start x \<le> fsm_start p)"

text \<open>
  A queue for examples: machines at 0 (skipped, because its range came back empty)
  and at 64 (data parsed, holding one block), and a third at 128.
\<close>

definition test_queue_env :: "bool \<Rightarrow> queue_env" where
  "test_queue_env ef =
     \<lparr>skippedMachineTimeout = 10, staleEpochTimeout = 20, enoughPeers = True,
      resetWindow = (\<lambda>q. q), emptyRowFirst = ef\<rparr>"


text \<open>
  The queue of the handler test for the slot-too-high response: one machine at 250,
  skipped.
\<close>

definition test_queue_250 :: blocksQueue where
  "test_queue_250 =
     \<lparr>machines =
        [\<lparr>fsm_start = 250, fsm_state = stateSkipped, fsm_pid = 0, fsm_blocks = [], fsm_updated = 0\<rparr>],
      highestExpectedSlot = 64, fetchedData = [], fetchRequests = [], penalized = []\<rparr>"

section \<open>Properties\<close>

subsection \<open>Word arithmetic without wrap-around\<close>

lemma word_zero_iff_uint:
  fixes w :: u64
  shows "(w = 0) = (\<not> 1 \<le> uint w)"
proof -
  have "0 \<le> uint w" by simp
  moreover have "(w = 0) = (uint w = 0)" by (simp add: uint_0_iff)
  ultimately show ?thesis by linarith
qed

lemma uint_pred:
  fixes c :: u64
  assumes "c \<noteq> 0"
  shows "uint (c - 1) = uint c - 1"
proof -
  have "1 \<le> uint c" using assms word_zero_iff_uint [of c] by simp
  then have "uint (1 :: u64) \<le> uint c" by simp
  then show ?thesis by (simp add: uint_sub_if')
qed

lemma highest_no_wrap:
  fixes cur rl :: u64
  assumes "uint cur + 2 * uint rl < 2 ^ 64"
  shows "uint (cur + rl * 2) = uint cur + 2 * uint rl"
proof -
  have "uint rl * 2 < (2 :: int) ^ 64"
    using assms uint_ge_0 [of cur] by arith
  then have rl: "uint rl * uint (2 :: u64) < 2 ^ 64"
    by simp
  have m: "uint (rl * 2) = uint rl * 2"
    using rl uint_mult_lem [of rl "2 :: u64"] by simp
  have "uint cur + uint (rl * 2) < 2 ^ 64"
    using assms m by simp
  then have "uint (cur + rl * 2) = uint cur + uint (rl * 2)"
    using uint_add_lem [of cur "rl * 2"] by simp
  then show ?thesis using m by simp
qed

lemma span_no_wrap:
  fixes step cnt rl mx :: u64
  assumes "uint rl * uint mx < 2 ^ 64" "cnt \<noteq> 0" "uint cnt \<le> uint mx" "uint step \<le> uint rl"
  shows "uint (step * (cnt - 1)) = uint step * (uint cnt - 1)"
proof -
  have c: "uint (cnt - 1) = uint cnt - 1" using assms(2) by (rule uint_pred)
  have nn: "uint cnt - 1 \<ge> 0" using assms(2) c uint_ge_0 [of "cnt - 1"] by simp
  have "uint step * (uint cnt - 1) \<le> uint rl * uint mx"
    using assms(3,4) nn by (intro mult_mono) auto
  then have "uint step * uint (cnt - 1) < 2 ^ 64" using assms(1) c by simp
  then show ?thesis using uint_mult_lem [of step "cnt - 1"] c by simp
qed

subsection \<open>Validation of range requests\<close>

text \<open>
  Claim C3.  \<^verbatim>\<open>validateRangeRequest\<close> rejects a request with the invalid-request
  error if and only if the request violates one of the four bounds (count in
  \<open>[1, MAX_REQUEST_BLOCKS]\<close>, step in \<open>[1, RANGE_LIMIT]\<close>, start slot at most
  \<open>current_slot + 2 * RANGE_LIMIT\<close>, \<open>step * (count - 1)\<close> at most \<open>RANGE_LIMIT\<close>), and
  a request within all four bounds passes with no error.  The bounds are read over
  the integers; the two hypotheses say that the node's constants and clock are such
  that the 64-bit computation of the bounds does not wrap (the wall-clock slot plus
  twice the range limit, and range limit times maximal count, fit in 64 bits).  They
  constrain the node, not the request.
\<close>

theorem validateRangeRequest_iff_bounds:
  assumes clock: "uint (CurrentSlot s) + 2 * uint (rangeLimit s) < 2 ^ 64"
    and cfg: "uint (rangeLimit s) * uint (MaxRequestBlocks s) < 2 ^ 64"
  shows "validateRangeRequest s r =
           (if request_in_bounds s r then None else Some ErrInvalidRequest)"
proof -
  have hi: "uint (CurrentSlot s + rangeLimit s * 2) = uint (CurrentSlot s) + 2 * uint (rangeLimit s)"
    using clock by (rule highest_no_wrap)
  have c1: "(Count r = 0 \<or> Count r > MaxRequestBlocks s) =
            (\<not> (1 \<le> uint (Count r) \<and> uint (Count r) \<le> uint (MaxRequestBlocks s)))"
    by (simp add: word_zero_iff_uint [of "Count r"] word_less_def not_le)
  have c2: "(Step r = 0 \<or> Step r > rangeLimit s) =
            (\<not> (1 \<le> uint (Step r) \<and> uint (Step r) \<le> uint (rangeLimit s)))"
    by (simp add: word_zero_iff_uint [of "Step r"] word_less_def not_le)
  have c3: "(StartSlot r > CurrentSlot s + rangeLimit s * 2) =
            (\<not> uint (StartSlot r) \<le> uint (CurrentSlot s) + 2 * uint (rangeLimit s))"
    by (simp add: word_less_def hi not_le)
  have d: "StartSlot r + Step r * (Count r - 1) - StartSlot r = Step r * (Count r - 1)"
    by simp
  show ?thesis
  proof (cases "(1 \<le> uint (Count r) \<and> uint (Count r) \<le> uint (MaxRequestBlocks s)) \<and>
                (1 \<le> uint (Step r) \<and> uint (Step r) \<le> uint (rangeLimit s))")
    case False
    then show ?thesis
      unfolding validateRangeRequest_def request_in_bounds_def Let_def c1 c2
      by auto
  next
    case True
    then have nz: "Count r \<noteq> 0" using word_zero_iff_uint [of "Count r"] by simp
    have sp: "uint (Step r * (Count r - 1)) = uint (Step r) * (uint (Count r) - 1)"
      using span_no_wrap [OF cfg nz] True by simp
    have c4: "(Step r * (Count r - 1) > rangeLimit s) =
              (\<not> uint (Step r) * (uint (Count r) - 1) \<le> uint (rangeLimit s))"
      by (simp add: word_less_def sp not_le)
    from True show ?thesis
      unfolding validateRangeRequest_def request_in_bounds_def Let_def c1 c2 c3 d c4
      by simp
  qed
qed

text \<open>
  The theorem at the constants of the reference network (\<open>rangeLimit = 1024\<close>,
  \<open>MaxRequestBlocks = 1024\<close>) and slot 1000, on a request of the test suite that
  passes and one that exceeds the range limit.
\<close>

theorem validateRangeRequest_iff_bounds_witness:
  "uint (CurrentSlot (test_env 64)) + 2 * uint (rangeLimit (test_env 64)) < 2 ^ 64 \<and>
   uint (rangeLimit (test_env 64)) * uint (MaxRequestBlocks (test_env 64)) < 2 ^ 64 \<and>
   request_in_bounds (test_env 64) \<lparr>StartSlot = 50, Step = 1, Count = 1023\<rparr> \<and>
   validateRangeRequest (test_env 64) \<lparr>StartSlot = 50, Step = 1, Count = 1023\<rparr> = None \<and>
   \<not> request_in_bounds (test_env 64) \<lparr>StartSlot = 0, Step = 3, Count = 500\<rparr> \<and>
   validateRangeRequest (test_env 64) \<lparr>StartSlot = 0, Step = 3, Count = 500\<rparr> = Some ErrInvalidRequest"
proof -
  have h1: "uint (CurrentSlot (test_env 64)) + 2 * uint (rangeLimit (test_env 64)) < 2 ^ 64"
    by (simp add: test_env_def)
  have h2: "uint (rangeLimit (test_env 64)) * uint (MaxRequestBlocks (test_env 64)) < 2 ^ 64"
    by (simp add: test_env_def)
  have a: "request_in_bounds (test_env 64) \<lparr>StartSlot = 50, Step = 1, Count = 1023\<rparr>"
    by (simp add: request_in_bounds_def test_env_def)
  have b: "\<not> request_in_bounds (test_env 64) \<lparr>StartSlot = 0, Step = 3, Count = 500\<rparr>"
    by (simp add: request_in_bounds_def test_env_def)
  show ?thesis
    using h1 h2 a b
      validateRangeRequest_iff_bounds [OF h1 h2, of "\<lparr>StartSlot = 50, Step = 1, Count = 1023\<rparr>"]
      validateRangeRequest_iff_bounds [OF h1 h2, of "\<lparr>StartSlot = 0, Step = 3, Count = 500\<rparr>"]
    by simp
qed

subsection \<open>Range client: the order of the received chunks\<close>

lemma upper_u64: "unat (StartSlot req + Count req * Step req) = range_end_u64 req"
  by (simp add: range_end_u64_def unat_word_ariths mod_simps)

lemma succ_no_wrap:
  fixes i c :: u64
  assumes "\<not> i \<ge> c"
  shows "unat (i + 1) = Suc (unat i)"
proof -
  have "unat i < unat c" using assms by (simp add: word_le_nat_alt not_le)
  moreover have "unat c < 2 ^ 64" using unsigned_less [of c, where ?'a = nat] by simp
  ultimately have "unat i + 1 < 2 ^ 64" by linarith
  then show ?thesis by (simp add: unat_word_ariths)
qed

lemma word_mod_dvd:
  fixes a p st :: u64
  assumes "p < a"
  shows "((a - p) mod st = 0) = (unat st dvd (unat a - unat p))"
proof -
  have "p \<le> a" using assms by simp
  then have "unat (a - p) = unat a - unat p" by (simp add: unat_sub)
  moreover have "((a - p) mod st = 0) = (unat ((a - p) mod st) = 0)" by (simp add: unat_eq_zero)
  ultimately show ?thesis by (simp add: unat_mod mod_eq_0_iff_dvd)
qed

text \<open>The code's checks on one chunk, as one condition.\<close>

lemma chunk_checks:
  fixes i prevSlot :: u64
  assumes i: "unat i = length acc" and prev: "acc \<noteq> [] \<longrightarrow> prevSlot = Slot (last acc)"
  shows "chunk_in_order mx req (range_end_u64 req) (acc @ blk # rest) (length acc) =
           (\<not> (i \<ge> Count req \<or> i \<ge> mx) \<and>
            \<not> (Slot blk < StartSlot req \<or> Slot blk \<ge> StartSlot req + Count req * Step req) \<and>
            \<not> (i \<noteq> 0 \<and> (prevSlot \<ge> Slot blk \<or> (Slot blk - prevSlot) mod Step req \<noteq> 0)))"
proof -
  have i0: "(i \<noteq> 0) = (0 < length acc)" using i by (metis unat_eq_zero neq0_conv)
  have k: "(acc @ blk # rest) ! length acc = blk" by simp
  have p: "(acc @ blk # rest) ! (length acc - 1) = last acc" if "0 < length acc"
    using that by (simp add: nth_append last_conv_nth)
  have c1: "(\<not> (i \<ge> Count req \<or> i \<ge> mx)) = (length acc < unat (Count req) \<and> length acc < unat mx)"
    using i by (auto simp: word_le_nat_alt)
  have c2: "(\<not> (Slot blk < StartSlot req \<or> Slot blk \<ge> StartSlot req + Count req * Step req)) =
            (unat (StartSlot req) \<le> unat (Slot blk) \<and> unat (Slot blk) < range_end_u64 req)"
    by (auto simp: word_le_nat_alt word_less_nat_alt upper_u64)
  show ?thesis
  proof (cases "0 < length acc")
    case False
    then show ?thesis
      unfolding chunk_in_order_def k c1 c2 i0 by simp
  next
    case True
    then have pl: "prevSlot = Slot (last acc)" using prev by auto
    have c3: "(\<not> (prevSlot \<ge> Slot blk \<or> (Slot blk - prevSlot) mod Step req \<noteq> 0)) =
              (unat prevSlot < unat (Slot blk) \<and> unat (Step req) dvd (unat (Slot blk) - unat prevSlot))"
    proof (cases "prevSlot < Slot blk")
      case True
      then show ?thesis using word_mod_dvd [OF True, of "Step req"]
        by (auto simp: word_less_nat_alt word_le_nat_alt)
    next
      case False
      then show ?thesis by (auto simp: word_less_nat_alt word_le_nat_alt)
    qed
    from True show ?thesis
      unfolding chunk_in_order_def k c1 c2 i0 p [OF True] pl [symmetric] using c3 by simp
  qed
qed

lemma step_zero_out_of_range:
  assumes "Step req = 0"
  shows "Slot blk < StartSlot req \<or> Slot blk \<ge> StartSlot req + Count req * Step req"
proof -
  have "StartSlot req + Count req * Step req = StartSlot req" using assms by simp
  then show ?thesis using linorder_not_less [of "Slot blk" "StartSlot req"] by metis
qed

lemma receiveChunks_step:
  "receiveChunks mx req blockProcessor i prevSlot blocks (ReadBlock blk # chunks) =
     (if i \<ge> Count req \<or> i \<ge> mx then Inl ErrInvalidFetchedData
      else if Slot blk < StartSlot req \<or> Slot blk \<ge> StartSlot req + Count req * Step req
      then Inl ErrInvalidFetchedData
      else if \<not> i = 0 \<and> \<not> prevSlot \<ge> Slot blk \<and> Step req = 0
      then Inl PanicDivideByZero
      else if \<not> i = 0 \<and> (prevSlot \<ge> Slot blk \<or> (Slot blk - prevSlot) mod Step req \<noteq> 0)
      then Inl ErrInvalidFetchedData
      else (case (case blockProcessor of None \<Rightarrow> None | Some f \<Rightarrow> f blk) of
              Some err \<Rightarrow> Inl err
            | None \<Rightarrow>
                receiveChunks mx req blockProcessor (i + 1) (Slot blk) (blocks @ [blk]) chunks))"
  by (simp only: receiveChunks.simps Let_def)

declare receiveChunks.simps(3) [simp del]

lemma receiveChunks_spec:
  fixes i prevSlot :: u64
  assumes bp: "\<forall>f b. blockProcessor = Some f \<longrightarrow> b \<in> set rest \<longrightarrow> f b = None"
    and i: "unat i = length acc" and prev: "acc \<noteq> [] \<longrightarrow> prevSlot = Slot (last acc)"
  shows "receiveChunks mx req blockProcessor i prevSlot acc (map ReadBlock rest) =
           (if \<forall>k. length acc \<le> k \<and> k < length acc + length rest \<longrightarrow>
                    chunk_in_order mx req (range_end_u64 req) (acc @ rest) k
            then Inr (acc @ rest) else Inl ErrInvalidFetchedData)"
  using assms
proof (induction rest arbitrary: i prevSlot acc)
  case Nil
  then show ?case by simp
next
  case (Cons blk rest)
  let ?A = "i \<ge> Count req \<or> i \<ge> mx"
  let ?B = "Slot blk < StartSlot req \<or> Slot blk \<ge> StartSlot req + Count req * Step req"
  let ?C = "\<not> i = 0 \<and> \<not> prevSlot \<ge> Slot blk \<and> Step req = 0"
  let ?D = "\<not> i = 0 \<and> (prevSlot \<ge> Slot blk \<or> (Slot blk - prevSlot) mod Step req \<noteq> 0)"
  let ?ok = "chunk_in_order mx req (range_end_u64 req) (acc @ blk # rest) (length acc)"
  let ?all = "\<forall>k. length acc \<le> k \<and> k < length acc + length (blk # rest) \<longrightarrow>
                    chunk_in_order mx req (range_end_u64 req) (acc @ blk # rest) k"
  let ?R = "\<forall>k. length (acc @ [blk]) \<le> k \<and> k < length (acc @ [blk]) + length rest \<longrightarrow>
                    chunk_in_order mx req (range_end_u64 req) ((acc @ [blk]) @ rest) k"
  have ck: "?ok = (\<not> ?A \<and> \<not> ?B \<and> \<not> ?D)"
    using chunk_checks [OF Cons.prems(2) Cons.prems(3)] .
  have nopanic: "\<not> ?C" if "\<not> ?B"
    using that step_zero_out_of_range [of req blk] by blast
  have proc: "(case blockProcessor of None \<Rightarrow> None | Some f \<Rightarrow> f blk) = None"
    using Cons.prems(1) by (auto split: option.splits)
  have all_imp_ok: "?ok" if "?all" using that by simp
  have all_imp_R: "?R" if "?all" using that by simp
  have ok_R_imp_all: "?all" if "?ok" "?R"
  proof (intro allI impI)
    fix k assume k: "length acc \<le> k \<and> k < length acc + length (blk # rest)"
    show "chunk_in_order mx req (range_end_u64 req) (acc @ blk # rest) k"
    proof (cases "k = length acc")
      case True
      then show ?thesis using that(1) by simp
    next
      case False
      then have "length (acc @ [blk]) \<le> k \<and> k < length (acc @ [blk]) + length rest"
        using k by simp
      then show ?thesis using that(2) by simp
    qed
  qed
  have m: "map ReadBlock (blk # rest) = ReadBlock blk # map ReadBlock rest" by simp
  show ?case
  proof (cases ?ok)
    case False
    then have nall: "\<not> ?all" using all_imp_ok by blast
    have "receiveChunks mx req blockProcessor i prevSlot acc (ReadBlock blk # map ReadBlock rest)
            = Inl ErrInvalidFetchedData"
    proof (cases ?A)
      case True
      then show ?thesis by (subst receiveChunks_step) (simp only: if_True simp_thms)
    next
      case nA: False
      show ?thesis
      proof (cases ?B)
        case True
        then show ?thesis using nA by (subst receiveChunks_step) (simp only: if_True if_False simp_thms)
      next
        case nB: False
        have nC: "\<not> ?C" using nopanic [OF nB] .
        have D: ?D using False nA nB unfolding ck by argo
        show ?thesis using nA nB nC D
          by (subst receiveChunks_step) (simp only: if_True if_False simp_thms)
      qed
    qed
    then show ?thesis using nall unfolding m by (simp only: if_False)
  next
    case True
    then have nA: "\<not> ?A" and nB: "\<not> ?B" and nD: "\<not> ?D"
      unfolding ck by argo+
    have nC: "\<not> ?C" using nopanic [OF nB] .
    have i': "unat (i + 1) = length (acc @ [blk])"
      using succ_no_wrap [of "Count req" i] nA Cons.prems(2) by simp
    have bp': "\<forall>f b. blockProcessor = Some f \<longrightarrow> b \<in> set rest \<longrightarrow> f b = None"
      using Cons.prems(1) by simp
    have ih: "receiveChunks mx req blockProcessor (i + 1) (Slot blk) (acc @ [blk]) (map ReadBlock rest) =
           (if ?R then Inr ((acc @ [blk]) @ rest) else Inl ErrInvalidFetchedData)"
      by (rule Cons.IH [OF bp' i']) simp
    have unf: "receiveChunks mx req blockProcessor i prevSlot acc (ReadBlock blk # map ReadBlock rest) =
               receiveChunks mx req blockProcessor (i + 1) (Slot blk) (acc @ [blk]) (map ReadBlock rest)"
      using nA nB nC nD proc
      by (subst receiveChunks_step) (simp only: if_False option.case simp_thms)
    have eq: "?all = ?R" using True all_imp_R ok_R_imp_all by blast
    show ?thesis unfolding m unf ih eq by simp
  qed
qed

text \<open>
  Claim C2, as stated, takes the requested range \<open>[start_slot, start_slot + count * step)\<close>
  over the natural numbers.  The code computes the upper bound in 64 bits.  For the
  request with start \<open>2 ^ 64 - 2\<close>, step 1 and count 4 the bound wraps to 2, and a
  response of one block at slot \<open>2 ^ 64 - 2\<close>, which meets every condition of the
  claim, is refused with the invalid-data error; so is the block at slot 0 for the
  request with start 0, step \<open>2 ^ 63\<close> and count 2, whose bound wraps to 0.  In both
  the block list of capacity \<open>count\<close> is allocated (here with a limit of \<open>2 ^ 45\<close>
  elements).
\<close>

theorem client_refuses_block_in_range:
  "response_in_order 1024 \<lparr>StartSlot = 0xFFFFFFFFFFFFFFFE, Step = 1, Count = 4\<rparr>
     (range_end \<lparr>StartSlot = 0xFFFFFFFFFFFFFFFE, Step = 1, Count = 4\<rparr>)
     [\<lparr>Slot = 0xFFFFFFFFFFFFFFFE, ProposerIndex = 0, ParentRoot = 0, Body = 0\<rparr>] \<and>
   SendBeaconBlocksByRangeRequest 1024 (2 ^ 45) \<lparr>StartSlot = 0xFFFFFFFFFFFFFFFE, Step = 1, Count = 4\<rparr>
     None (Inr [ReadBlock \<lparr>Slot = 0xFFFFFFFFFFFFFFFE, ProposerIndex = 0, ParentRoot = 0, Body = 0\<rparr>])
     = Inl ErrInvalidFetchedData \<and>
   response_in_order 1024 \<lparr>StartSlot = 0, Step = 2 ^ 63, Count = 2\<rparr>
     (range_end \<lparr>StartSlot = 0, Step = 2 ^ 63, Count = 2\<rparr>)
     [\<lparr>Slot = 0, ProposerIndex = 0, ParentRoot = 0, Body = 0\<rparr>] \<and>
   SendBeaconBlocksByRangeRequest 1024 (2 ^ 45) \<lparr>StartSlot = 0, Step = 2 ^ 63, Count = 2\<rparr> None
     (Inr [ReadBlock \<lparr>Slot = 0, ProposerIndex = 0, ParentRoot = 0, Body = 0\<rparr>])
     = Inl ErrInvalidFetchedData"
  by (simp add: response_in_order_def chunk_in_order_def range_end_def
      SendBeaconBlocksByRangeRequest_def receiveChunks_step)

text \<open>
  Claim C2, amended: the upper bound of the range is \<open>start_slot + count * step\<close>
  as computed in 64 bits (modulo \<open>2 ^ 64\<close>), and the block list of capacity
  \<open>count\<close> must be allocated first.  For a response stream on which every read yields
  a block and a block processor (if any) that accepts every block: if the count
  exceeds the largest capacity that can be allocated, the call panics before any
  chunk is read.  Otherwise, if some chunk has an index not below the count or not
  below \<open>MAX_REQUEST_BLOCKS\<close>, or a slot outside the range, or (after the first
  chunk) a slot not above the previous chunk's slot at a distance that is a multiple
  of the step, the call returns the invalid-data error and no blocks; otherwise it
  returns all received blocks, and their slots are strictly increasing.
\<close>

theorem client_accepts_iff_in_order:
  assumes "\<forall>f b. blockProcessor = Some f \<longrightarrow> b \<in> set blks \<longrightarrow> f b = None"
  shows "SendBeaconBlocksByRangeRequest mx maxCap req blockProcessor (Inr (map ReadBlock blks)) =
           (if Count req > maxCap then Inl PanicMakeSlice
            else if response_in_order mx req (range_end_u64 req) blks then Inr blks
            else Inl ErrInvalidFetchedData) \<and>
         (response_in_order mx req (range_end_u64 req) blks \<longrightarrow>
            sorted_wrt (<) (map (\<lambda>b. unat (Slot b)) blks))"
proof -
  have "receiveChunks mx req blockProcessor 0 0 [] (map ReadBlock blks) =
           (if \<forall>k. length ([] :: block list) \<le> k \<and> k < length ([] :: block list) + length blks \<longrightarrow>
                    chunk_in_order mx req (range_end_u64 req) ([] @ blks) k
            then Inr ([] @ blks) else Inl ErrInvalidFetchedData)"
    by (rule receiveChunks_spec [OF assms]) simp_all
  then have r: "receiveChunks mx req blockProcessor 0 0 [] (map ReadBlock blks) =
           (if response_in_order mx req (range_end_u64 req) blks then Inr blks
            else Inl ErrInvalidFetchedData)"
    by (simp add: response_in_order_def)
  have a: "SendBeaconBlocksByRangeRequest mx maxCap req blockProcessor (Inr (map ReadBlock blks)) =
           (if Count req > maxCap then Inl PanicMakeSlice
            else if response_in_order mx req (range_end_u64 req) blks then Inr blks
            else Inl ErrInvalidFetchedData)"
    by (simp add: SendBeaconBlocksByRangeRequest_def r)
  have b: "sorted_wrt (<) (map (\<lambda>b. unat (Slot b)) blks)"
    if ok: "response_in_order mx req (range_end_u64 req) blks"
  proof -
    have "unat (Slot (blks ! i)) < unat (Slot (blks ! Suc i))" if "Suc i < length blks" for i
      using ok that unfolding response_in_order_def chunk_in_order_def
      by (metis diff_Suc_1 zero_less_Suc)
    then show ?thesis
      by (simp add: sorted_wrt_iff_nth_Suc_transp)
  qed
  show ?thesis using a b by blast
qed

text \<open>
  The theorem for the request with start 100, step 2 and count 3: the response with
  slots 100 and 104 is returned, the response with slots 100 and 103 is refused; and
  for a count of \<open>2 ^ 63\<close>, beyond a limit of \<open>2 ^ 45\<close> elements, the call panics.
\<close>

theorem client_accepts_iff_in_order_witness:
  "SendBeaconBlocksByRangeRequest 1024 (2 ^ 45) \<lparr>StartSlot = 100, Step = 2, Count = 3\<rparr> None
     (Inr (map ReadBlock [chain_block 100, chain_block 104]))
     = Inr [chain_block 100, chain_block 104] \<and>
   response_in_order 1024 \<lparr>StartSlot = 100, Step = 2, Count = 3\<rparr>
     (range_end_u64 \<lparr>StartSlot = 100, Step = 2, Count = 3\<rparr>) [chain_block 100, chain_block 104] \<and>
   sorted_wrt (<) (map (\<lambda>b. unat (Slot b)) [chain_block 100, chain_block 104]) \<and>
   SendBeaconBlocksByRangeRequest 1024 (2 ^ 45) \<lparr>StartSlot = 100, Step = 2, Count = 3\<rparr> None
     (Inr (map ReadBlock [chain_block 100, chain_block 103]))
     = Inl ErrInvalidFetchedData \<and>
   SendBeaconBlocksByRangeRequest 1024 (2 ^ 45) \<lparr>StartSlot = 0, Step = 2, Count = 2 ^ 63\<rparr> None
     (Inr (map ReadBlock [chain_block 0]))
     = Inl PanicMakeSlice"
proof -
  have p: "\<forall>f b. (None :: (block \<Rightarrow> error option) option) = Some f \<longrightarrow> b \<in> set bs \<longrightarrow> f b = None"
    for bs :: "block list"
    by simp
  have ok: "response_in_order 1024 \<lparr>StartSlot = 100, Step = 2, Count = 3\<rparr>
     (range_end_u64 \<lparr>StartSlot = 100, Step = 2, Count = 3\<rparr>) [chain_block 100, chain_block 104]"
    by (simp add: response_in_order_def chunk_in_order_def range_end_u64_def chain_block_def
        less_Suc_eq all_conj_distrib)
  have bad: "\<not> response_in_order 1024 \<lparr>StartSlot = 100, Step = 2, Count = 3\<rparr>
     (range_end_u64 \<lparr>StartSlot = 100, Step = 2, Count = 3\<rparr>) [chain_block 100, chain_block 103]"
    by (simp add: response_in_order_def chunk_in_order_def range_end_u64_def chain_block_def
        less_Suc_eq all_conj_distrib)
  have small: "\<not> Count \<lparr>StartSlot = 100, Step = 2, Count = 3\<rparr> > (2 ^ 45 :: u64)" by simp
  have big: "Count \<lparr>StartSlot = 0, Step = 2, Count = 2 ^ 63\<rparr> > (2 ^ 45 :: u64)" by simp
  show ?thesis
    using ok bad small big
      client_accepts_iff_in_order [OF p, where mx = 1024 and maxCap = "2 ^ 45"
        and req = "\<lparr>StartSlot = 100, Step = 2, Count = 3\<rparr>"
        and blks = "[chain_block 100, chain_block 104]"]
      client_accepts_iff_in_order [OF p, where mx = 1024 and maxCap = "2 ^ 45"
        and req = "\<lparr>StartSlot = 100, Step = 2, Count = 3\<rparr>"
        and blks = "[chain_block 100, chain_block 103]"]
      client_accepts_iff_in_order [OF p, where mx = 1024 and maxCap = "2 ^ 45"
        and req = "\<lparr>StartSlot = 0, Step = 2, Count = 2 ^ 63\<rparr>"
        and blks = "[chain_block 0]"]
    by simp
qed

subsection \<open>Range server: the filter and the cells of previous roots\<close>

lemma filterLoop_heap:
  "\<exists>ext. snd (filterLoop s step start brs h p acc) = h @ ext"
proof (induction brs arbitrary: h p acc)
  case Nil
  then show ?case by simp
next
  case (Cons br brs)
  obtain b r where br: "br = (b, r)" by (cases br)
  have a: "\<exists>ext. snd (filterLoop s step start brs (h @ [r]) (length h) (acc @ [b])) = h @ ext"
    using Cons.IH [of "h @ [r]" "length h" "acc @ [b]"] by auto
  have b: "\<exists>ext. snd (filterLoop s step start brs h p acc) = h @ ext"
    using Cons.IH [of h p acc] .
  show ?case unfolding br using a b
    by (auto simp: Let_def split: sum.splits)
qed

lemma filterLoop_keeps_cell:
  assumes "a < length h"
  shows "snd (filterLoop s step start brs h p acc) ! a = h ! a \<and>
         a < length (snd (filterLoop s step start brs h p acc))"
proof -
  obtain ext where "snd (filterLoop s step start brs h p acc) = h @ ext"
    using filterLoop_heap by blast
  then show ?thesis using assms by (simp add: nth_append)
qed

lemma filterLoop_single_step:
  assumes ok: "\<forall>br \<in> set brs. \<exists>c. IsCanonical s (snd br) = Inr c" and p: "p < length h"
  shows "fst (filterLoop s 1 start brs h p acc) =
           (acc @ map fst (linear_prefix (h ! p) (canonical_blocks s brs)),
            if linear_prefix (h ! p) (canonical_blocks s brs) = canonical_blocks s brs then None
            else Some ErrInvalidParent)"
  using assms
proof (induction brs arbitrary: h p acc)
  case Nil
  then show ?case by (simp add: canonical_blocks_def)
next
  case (Cons br brs)
  obtain b r where br: "br = (b, r)" by (cases br)
  obtain c where c: "IsCanonical s r = Inr c" using Cons.prems(1) br by auto
  have ok': "\<forall>br \<in> set brs. \<exists>c. IsCanonical s (snd br) = Inr c" using Cons.prems(1) by simp
  show ?case
  proof (cases c)
    case False
    then have cb: "canonical_blocks s (br # brs) = canonical_blocks s brs"
      using c br by (simp add: canonical_blocks_def)
    have "filterLoop s 1 start (br # brs) h p acc = filterLoop s 1 start brs h p acc"
      using c False br by simp
    then show ?thesis using Cons.IH [OF ok' Cons.prems(2)] cb by simp
  next
    case True
    then have cb: "canonical_blocks s (br # brs) = (b, r) # canonical_blocks s brs"
      using c br by (simp add: canonical_blocks_def)
    show ?thesis
    proof (cases "h ! p \<noteq> 0 \<and> h ! p \<noteq> ParentRoot b")
      case bad: True
      then have "filterLoop s 1 start (br # brs) h p acc = ((acc, Some ErrInvalidParent), h)"
        using c True br by (simp add: Let_def)
      then show ?thesis using bad cb by simp
    next
      case good: False
      then have unf: "filterLoop s 1 start (br # brs) h p acc =
                 filterLoop s 1 start brs (h @ [r]) (length h) (acc @ [b])"
        using c True br by (auto simp: Let_def)
      have ih: "fst (filterLoop s 1 start brs (h @ [r]) (length h) (acc @ [b])) =
           ((acc @ [b]) @ map fst (linear_prefix ((h @ [r]) ! length h) (canonical_blocks s brs)),
            if linear_prefix ((h @ [r]) ! length h) (canonical_blocks s brs) = canonical_blocks s brs then None
            else Some ErrInvalidParent)"
        by (rule Cons.IH [OF ok']) simp
      show ?thesis unfolding unf ih cb using good by simp
    qed
  qed
qed

lemma linear_prefix_stop:
  assumes "linear_prefix prev pre = pre"
    and "(if pre = [] then prev else snd (last pre)) \<noteq> 0"
    and "(if pre = [] then prev else snd (last pre)) \<noteq> ParentRoot b"
  shows "linear_prefix prev (pre @ (b, r) # post) = pre"
  using assms
proof (induction pre arbitrary: prev)
  case Nil
  then show ?case by simp
next
  case (Cons x pre)
  obtain b' r' where x: "x = (b', r')" by (cases x)
  from Cons.prems(1) have ok: "\<not> (prev \<noteq> 0 \<and> prev \<noteq> ParentRoot b')" and lp: "linear_prefix r' pre = pre"
    unfolding x by (auto split: if_splits)
  have l: "(if pre = [] then r' else snd (last pre)) = (if x # pre = [] then prev else snd (last (x # pre)))"
    by (simp add: x)
  have "linear_prefix r' (pre @ (b, r) # post) = pre"
    using Cons.IH [OF lp] Cons.prems(2,3) unfolding l [symmetric] by simp
  then show ?case using ok unfolding x by simp
qed

lemma writeChunks_ok:
  assumes "\<forall>b \<in> set blks. chunkWriter s b = None"
  shows "writeChunks s blks out = (None, out @ map SuccessChunk blks)"
  using assms by (induction blks arbitrary: out) simp_all

lemma writeBlockRangeToStream_retrieve:
  "writeBlockRangeToStream s a b step h p out =
     (case retrieveBatch s a b step of
        Inl err \<Rightarrow> (Some err, out @ [ErrorChunk responseCodeServerError ErrGeneric], h)
      | Inr (blks3, roots3) \<Rightarrow>
          (case filterBlocks s blks3 roots3 h p step a of
             ((blks4, err), h') \<Rightarrow>
               if err = Some PanicDivideByZero then (err, out, h')
               else if err \<noteq> None \<and> err \<noteq> Some ErrInvalidParent
               then (err, out @ [ErrorChunk responseCodeServerError ErrGeneric], h')
               else (case writeChunks s blks4 out of
                       (Some chunkErr, out') \<Rightarrow> (Some chunkErr, out', h')
                     | (None, out') \<Rightarrow> (err, out', h'))))"
  unfolding writeBlockRangeToStream_def retrieveBatch_def
  by (simp split: sum.splits prod.splits)

lemma write_truncated:
  assumes rb: "retrieveBatch s a b 1 = Inr (blks, roots)"
    and len: "length blks = length roots"
    and can: "\<forall>r \<in> set roots. \<exists>c. IsCanonical s r = Inr c"
    and p: "p < length h"
    and cw: "\<forall>x \<in> set (linear_prefix (h ! p) (canonical_blocks s (zip blks roots))). chunkWriter s (fst x) = None"
  shows "\<exists>h'. writeBlockRangeToStream s a b 1 h p out =
           ((if linear_prefix (h ! p) (canonical_blocks s (zip blks roots)) = canonical_blocks s (zip blks roots)
             then None else Some ErrInvalidParent),
            out @ map SuccessChunk (map fst (linear_prefix (h ! p) (canonical_blocks s (zip blks roots)))),
            h') \<and> h' ! p = h ! p \<and> p < length h'"
proof -
  let ?lp = "linear_prefix (h ! p) (canonical_blocks s (zip blks roots))"
  let ?err = "if ?lp = canonical_blocks s (zip blks roots) then None else Some ErrInvalidParent"
  have ok: "\<forall>br \<in> set (zip blks roots). \<exists>c. IsCanonical s (snd br) = Inr c"
    using can by (auto dest: set_zip_rightD)
  obtain res h' where fl: "filterLoop s 1 a (zip blks roots) h p [] = (res, h')"
    by (cases "filterLoop s 1 a (zip blks roots) h p []")
  have res: "res = (map fst ?lp, ?err)"
    using filterLoop_single_step [OF ok p, of a "[]"] fl by simp
  have h': "h' ! p = h ! p \<and> p < length h'"
    using filterLoop_keeps_cell [OF p, of s 1 a "zip blks roots" p "[]"] fl by simp
  have fb: "filterBlocks s blks roots h p 1 a = ((map fst ?lp, ?err), h')"
    using fl res len by (simp add: filterBlocks_def)
  have wc: "writeChunks s (map fst ?lp) out = (None, out @ map SuccessChunk (map fst ?lp))"
    using cw by (intro writeChunks_ok) auto
  have "writeBlockRangeToStream s a b 1 h p out = (?err, out @ map SuccessChunk (map fst ?lp), h')"
    unfolding writeBlockRangeToStream_retrieve rb using fb wc by simp
  then show ?thesis using h' by blast
qed

subsection \<open>Range server: batches, truncation and the rate limiter\<close>

lemma debit_int:
  fixes a b step rl :: u64
  assumes le: "a \<le> b" and rng: "\<not> b - a > rl" and rl: "uint rl < 2 ^ 63 - 1"
  shows "sint (1 + (b - a) div step) = 1 + (uint b - uint a) div uint step"
proof -
  have x: "uint (b - a) = uint b - uint a"
    using le by (simp add: uint_sub_lem [symmetric] word_le_def)
  have xr: "uint (b - a) \<le> uint rl" using rng by (simp add: word_less_def not_less)
  have d: "uint ((b - a) div step) = (uint b - uint a) div uint step"
    by (simp add: uint_div x)
  have "unat ((b - a) div step) \<le> unat (b - a)"
    by (simp add: unat_div div_le_dividend)
  then have dl: "uint ((b - a) div step) \<le> uint (b - a)"
    by (simp add: word_le_nat_alt [symmetric] word_le_def)
  have small: "uint ((b - a) div step) < 2 ^ 63 - 1" using dl xr rl by linarith
  have "uint (1 :: u64) + uint ((b - a) div step) < 2 ^ 64" using small by simp
  then have u: "uint (1 + (b - a) div step) = 1 + uint ((b - a) div step)"
    using uint_add_lem [of "1 :: u64" "(b - a) div step"] by simp
  have nn: "0 \<le> uint ((b - a) div step)" by simp
  have "sint (1 + (b - a) div step) = signed_take_bit 63 (uint (1 + (b - a) div step))"
    by (simp add: sint_uint)
  also have "\<dots> = uint (1 + (b - a) div step)"
    using small nn unfolding u by (intro signed_take_bit_int_eq_self) simp_all
  finally show ?thesis using u d by simp
qed

lemma batchStep_after_write:
  assumes rate: "limiter_validateRequest (remaining st) (BlockBatchLimit s) = None"
    and rng: "\<not> batch_end st - batch_start st > rangeLimit s"
    and w: "writeBlockRangeToStream s (batch_start st) (batch_end st) (Step m) (cells st) pr (stream st)
              = (err, out', h')"
    and e: "err = None \<or> err = Some ErrInvalidParent"
    and nz: "Step m \<noteq> 0"
  shows "bucket_after (batchStep s m endReqSlot pr st) =
           (if batch_start st \<le> batch_end st
            then limiter_add (remaining st) (sint (1 + (batch_end st - batch_start st) div Step m))
            else remaining st) \<and>
         (err = Some ErrInvalidParent \<or> batch_end st + Step m > endReqSlot \<longrightarrow>
            batchStep s m endReqSlot pr st =
              Done \<lparr>ret = None, written = out',
                    bucket = (if batch_start st \<le> batch_end st
                              then limiter_add (remaining st)
                                     (sint (1 + (batch_end st - batch_start st) div Step m))
                              else remaining st),
                    penalties = 0, final_cells = h'\<rparr>)"
  using e
proof
  assume "err = None"
  then show ?thesis using rate rng w nz
    by (simp add: batchStep_def bucket_after_def Let_def)
next
  assume "err = Some ErrInvalidParent"
  then show ?thesis using rate rng w nz
    by (simp add: batchStep_def bucket_after_def Let_def)
qed

lemma rate_limited_request:
  assumes valid: "validateRangeRequest s m = None"
    and enter: "StartSlot m \<le> StartSlot m + Step m * (Count m - 1)"
    and low: "r < uint (BlockBatchLimit s)"
  shows "beaconBlocksByRangeRPCHandler s (Some r) m =
           Some \<lparr>ret = Some ErrRateLimited,
                 written = [ErrorChunk responseCodeRateLimited ErrRateLimited],
                 bucket = r, penalties = 1, final_cells = [0]\<rparr>"
  using assms
  by (simp add: beaconBlocksByRangeRPCHandler_def Let_def handlerLoop.simps batchStep_def
      limiter_validateRequest_def)

lemma valid_request_facts:
  assumes "validateRangeRequest s m = None"
  shows "Count m \<noteq> 0" "Step m \<noteq> 0" "\<not> Step m * (Count m - 1) > rangeLimit s"
  using assms by (auto simp: validateRangeRequest_def Let_def split: if_splits)

lemma single_batch_served:
  assumes valid: "validateRangeRequest s m = None"
    and step1: "Step m = 1"
    and single: "\<not> Count m > BlockBatchLimit s"
    and nowrap: "uint (StartSlot m) + uint (Count m) < 2 ^ 64"
    and rl: "uint (rangeLimit s) < 2 ^ 63 - 1"
    and srv: "serves s (StartSlot m) (StartSlot m + (Count m - 1)) 1"
    and enough: "uint (BlockBatchLimit s) \<le> r"
  shows "\<exists>res. beaconBlocksByRangeRPCHandler s (Some r) m = Some res \<and> ret res = None \<and>
               bucket res = r - uint (Count m)"
proof -
  let ?a = "StartSlot m" and ?b = "StartSlot m + (Count m - 1)"
  let ?st = "\<lparr>batch_start = ?a, batch_end = ?b, stream = [], remaining = r, cells = [0]\<rparr>"
  have cnz: "Count m \<noteq> 0" and rng0: "\<not> Step m * (Count m - 1) > rangeLimit s"
    using valid_request_facts [OF valid] by auto
  have c1: "uint (Count m - 1) = uint (Count m) - 1" using cnz by (rule uint_pred)
  have "uint ?a + uint (Count m - 1) < 2 ^ 64" using nowrap c1 by simp
  then have ub: "uint ?b = uint ?a + uint (Count m) - 1"
    using uint_add_lem [of ?a "Count m - 1"] c1 by simp
  have cpos: "1 \<le> uint (Count m)" using cnz word_zero_iff_uint [of "Count m"] by simp
  have le: "?a \<le> ?b" using ub cpos by (simp add: word_le_def)
  have "uint (?b + 1) = uint ?b + 1"
    using uint_add_lem [of ?b "1 :: u64"] ub nowrap by simp
  then have gt: "?b + 1 > ?b" by (simp add: word_less_def)
  have rate: "limiter_validateRequest (remaining ?st) (BlockBatchLimit s) = None"
    using enough by (simp add: limiter_validateRequest_def)
  have rng: "\<not> batch_end ?st - batch_start ?st > rangeLimit s"
    using rng0 step1 by simp
  obtain err out' h' where w: "writeBlockRangeToStream s (batch_start ?st) (batch_end ?st) (Step m)
       (cells ?st) 0 (stream ?st) = (err, out', h')"
    by (metis prod.exhaust)
  have e: "err = None \<or> err = Some ErrInvalidParent"
    using srv w step1 unfolding serves_def
    by (metis fst_conv loop_state.select_convs(1) loop_state.select_convs(2))
  have nz: "Step m \<noteq> 0" using step1 by simp
  have fin: "batch_end ?st + Step m > ?b" using gt step1 by simp
  have sd: "sint (1 + (?b - ?a) div Step m) = 1 + (uint ?b - uint ?a) div uint (Step m)"
    using debit_int [OF le _ rl, of "Step m"] rng by simp
  have debit: "sint (1 + (batch_end ?st - batch_start ?st) div Step m) = uint (Count m)"
    using sd ub step1 by simp
  have cl: "uint (Count m) \<le> r" using single enough by (simp add: word_less_def not_less)
  from batchStep_after_write [OF rate rng w e nz, of ?b] fin le
  have bs: "batchStep s m ?b 0 ?st =
              Done \<lparr>ret = None, written = out', bucket = limiter_add r (uint (Count m)),
                    penalties = 0, final_cells = h'\<rparr>"
    unfolding debit by simp
  have "beaconBlocksByRangeRPCHandler s (Some r) m = handlerLoop s m ?b 0 ?st"
    using valid single step1 by (simp add: beaconBlocksByRangeRPCHandler_def Let_def)
  also have "\<dots> = Some \<lparr>ret = None, written = out', bucket = limiter_add r (uint (Count m)),
                    penalties = 0, final_cells = h'\<rparr>"
    using le bs by (subst handlerLoop.simps) simp
  finally show ?thesis using cl by (simp add: limiter_add_def)
qed

lemma burst_served:
  assumes valid: "validateRangeRequest s m = None"
    and step1: "Step m = 1"
    and full: "Count m = BlockBatchLimit s"
    and nowrap: "uint (StartSlot m) + uint (Count m) < 2 ^ 64"
    and rl: "uint (rangeLimit s) < 2 ^ 63 - 1"
    and srv: "serves s (StartSlot m) (StartSlot m + (Count m - 1)) 1"
  shows "serveRequests s m n (uint (BlockBatchLimit s) * int n) = Some (replicate n None, 0)"
proof (induction n)
  case 0
  then show ?case by simp
next
  case (Suc n)
  have single: "\<not> Count m > BlockBatchLimit s" using full by simp
  have enough: "uint (BlockBatchLimit s) \<le> uint (BlockBatchLimit s) * int (Suc n)"
    by (simp add: algebra_simps)
  obtain res where res: "beaconBlocksByRangeRPCHandler s (Some (uint (BlockBatchLimit s) * int (Suc n))) m = Some res"
    "ret res = None" "bucket res = uint (BlockBatchLimit s) * int (Suc n) - uint (Count m)"
    using single_batch_served [OF valid step1 single nowrap rl srv enough] by blast
  have "bucket res = uint (BlockBatchLimit s) * int n"
    using res(3) full by (simp add: algebra_simps)
  then show ?case using res(1,2) Suc.IH by simp
qed

lemma write_keeps_cell:
  assumes "a < length h"
  shows "snd (snd (writeBlockRangeToStream s lo hi step h p out)) ! a = h ! a \<and>
         a < length (snd (snd (writeBlockRangeToStream s lo hi step h p out)))"
proof (cases "retrieveBatch s lo hi step")
  case (Inl err)
  then show ?thesis using assms by (simp add: writeBlockRangeToStream_retrieve)
next
  case (Inr br)
  obtain blks roots where br: "br = (blks, roots)" by (cases br)
  obtain res h' where fb: "filterBlocks s blks roots h p step lo = (res, h')"
    by (cases "filterBlocks s blks roots h p step lo")
  have "h' ! a = h ! a \<and> a < length h'"
    using fb assms filterLoop_keeps_cell [OF assms, of s step lo "zip blks roots" p "[]"]
    by (auto simp: filterBlocks_def split: if_splits)
  then show ?thesis
    unfolding writeBlockRangeToStream_retrieve Inr br
    using fb by (cases res) (auto split: prod.splits option.splits)
qed

text \<open>
  Whatever a batch writes, the cell that holds the handler's \<^verbatim>\<open>prevRoot\<close> has the
  same value when the next batch begins.
\<close>

lemma batchStep_keeps_prevRoot:
  assumes "batchStep s m endReqSlot pr st = Continue st'" and "pr < length (cells st)"
  shows "cells st' ! pr = cells st ! pr \<and> pr < length (cells st')"
proof -
  obtain err out' h' where w: "writeBlockRangeToStream s (batch_start st) (batch_end st) (Step m)
       (cells st) pr (stream st) = (err, out', h')"
    by (metis prod.exhaust)
  have k: "h' ! pr = cells st ! pr \<and> pr < length h'"
    using write_keeps_cell [OF assms(2), of s "batch_start st" "batch_end st" "Step m" pr "stream st"] w
    by simp
  have "cells st' = h'"
    using assms(1) w
    by (auto simp: batchStep_def Let_def split: option.splits if_splits)
  then show ?thesis using k by simp
qed

lemmas range_defs = beaconBlocksByRangeRPCHandler_def validateRangeRequest_def handlerLoop.simps
  batchStep_def writeBlockRangeToStream_def filterBlocks_def limiter_validateRequest_def
  limiter_add_def Let_def

text \<open>
  Claim C1 says that the previous root is threaded through all batches of a
  response, so that the first block of batch \<open>k + 1\<close> is compared with the root of
  the last block of batch \<open>k\<close>.  The code evaluated on the example store, whose
  block at slot 2 has a parent root (77) that is not the root (11) of the block at
  slot 1: with a batch limit of 1 the two blocks fall into two batches and both are
  written; with a batch limit of 2 they are one batch and the response is truncated
  after the first.  \<^verbatim>\<open>filterBlocks\<close> points its own pointer at a fresh cell and
  never writes the cell of the handler (cell 0 is still zero when the handler
  returns).
\<close>

theorem prevRoot_lost_between_batches:
  "beaconBlocksByRangeRPCHandler (test_env 1) (Some 100) \<lparr>StartSlot = 1, Step = 1, Count = 2\<rparr>
     = Some \<lparr>ret = None, written = [SuccessChunk blk1, SuccessChunk blk2], bucket = 98,
             penalties = 0, final_cells = [0, 11, 12]\<rparr> \<and>
   ParentRoot blk2 \<noteq> 11 \<and>
   beaconBlocksByRangeRPCHandler (test_env 2) (Some 100) \<lparr>StartSlot = 1, Step = 1, Count = 2\<rparr>
     = Some \<lparr>ret = None, written = [SuccessChunk blk1], bucket = 98,
             penalties = 0, final_cells = [0, 11]\<rparr>"
  by (simp add: range_defs test_env_def blk1_def blk2_def)

text \<open>
  Inside one batch the chain check works.  In a batch served with step 1, let
  \<open>(b, r)\<close> be a canonical block whose parent root differs from the previous root,
  that root being non-zero: the root of the canonical block before it in the batch,
  or the value of the previous-root cell if it is the first.  If the canonical
  blocks \<open>pre\<close> before it are accepted and written, the pass writes exactly the
  blocks of \<open>pre\<close> as success chunks after what the stream already held, writes no
  error chunk, and ends the handler with no error.  (With step 1 every block is on
  the grid.  The hypotheses say that the batch is reached and served: the rate
  limiter admits it, its span is within the range limit, and store, fork choice and
  chunk writer do not fail.)
\<close>

lemma disjoint_chain_truncates:
  assumes step1: "Step m = 1"
    and rate: "limiter_validateRequest (remaining st) (BlockBatchLimit s) = None"
    and rng: "\<not> batch_end st - batch_start st > rangeLimit s"
    and rb: "retrieveBatch s (batch_start st) (batch_end st) 1 = Inr (blks, roots)"
    and len: "length blks = length roots"
    and can: "\<forall>r \<in> set roots. \<exists>c. IsCanonical s r = Inr c"
    and p: "pr < length (cells st)"
    and split: "canonical_blocks s (zip blks roots) = pre @ (b, r) # post"
    and pre: "linear_prefix (cells st ! pr) pre = pre"
    and pv0: "(if pre = [] then cells st ! pr else snd (last pre)) \<noteq> 0"
    and pvb: "(if pre = [] then cells st ! pr else snd (last pre)) \<noteq> ParentRoot b"
    and cw: "\<forall>x \<in> set pre. chunkWriter s (fst x) = None"
  shows "\<exists>res. batchStep s m endReqSlot pr st = Done res \<and> ret res = None \<and>
               written res = stream st @ map SuccessChunk (map fst pre)"
proof -
  have lp: "linear_prefix (cells st ! pr) (canonical_blocks s (zip blks roots)) = pre"
    unfolding split using linear_prefix_stop [OF pre pv0 pvb] .
  have ne: "pre \<noteq> canonical_blocks s (zip blks roots)" unfolding split by simp
  have cw': "\<forall>x \<in> set (linear_prefix (cells st ! pr) (canonical_blocks s (zip blks roots))).
               chunkWriter s (fst x) = None"
    unfolding lp using cw .
  obtain h' where w: "writeBlockRangeToStream s (batch_start st) (batch_end st) 1 (cells st) pr (stream st)
      = (Some ErrInvalidParent, stream st @ map SuccessChunk (map fst pre), h')"
    using write_truncated [OF rb len can p cw', of "stream st"] ne unfolding lp by auto
  have nz: "Step m \<noteq> 0" using step1 by simp
  show ?thesis
    using batchStep_after_write [OF rate rng w [folded step1] _ nz, of endReqSlot] by simp
qed

text \<open>
  On the example store, served as one batch: the block at slot 2 breaks the chain
  after the block at slot 1.
\<close>

lemma disjoint_chain_truncates_example:
  "canonical_blocks (test_env 2) (zip [blk1, blk2] [11, 12]) = [(blk1, 11)] @ (blk2, 12) # [] \<and>
   snd (last [(blk1, 11 :: root)]) \<noteq> ParentRoot blk2 \<and>
   (\<exists>res. batchStep (test_env 2) \<lparr>StartSlot = 1, Step = 1, Count = 2\<rparr> 2 0
            \<lparr>batch_start = 1, batch_end = 2, stream = [], remaining = 100, cells = [0]\<rparr> = Done res \<and>
          ret res = None \<and> written res = [SuccessChunk blk1])"
proof -
  let ?m = "\<lparr>StartSlot = 1, Step = 1, Count = 2\<rparr>"
  let ?st = "\<lparr>batch_start = 1, batch_end = 2, stream = [], remaining = 100, cells = [0]\<rparr>"
  have h1: "Step ?m = 1" by simp
  have h2: "limiter_validateRequest (remaining ?st) (BlockBatchLimit (test_env 2)) = None"
    by (simp add: limiter_validateRequest_def test_env_def)
  have h3: "\<not> batch_end ?st - batch_start ?st > rangeLimit (test_env 2)"
    by (simp add: test_env_def)
  have h4: "retrieveBatch (test_env 2) (batch_start ?st) (batch_end ?st) 1 = Inr ([blk1, blk2], [11, 12])"
    by (simp add: retrieveBatch_def test_env_def)
  have h5: "length [blk1, blk2] = length [11 :: root, 12]" by simp
  have h6: "\<forall>r \<in> set [11 :: root, 12]. \<exists>c. IsCanonical (test_env 2) r = Inr c"
    by (auto simp: test_env_def)
  have h7: "0 < length (cells ?st)" by simp
  have h8: "canonical_blocks (test_env 2) (zip [blk1, blk2] [11, 12]) = [(blk1, 11)] @ (blk2, 12) # []"
    by (simp add: canonical_blocks_def test_env_def)
  have h9: "linear_prefix (cells ?st ! 0) [(blk1, 11)] = [(blk1, 11)]" by simp
  have h10: "(if [(blk1, 11 :: root)] = [] then cells ?st ! 0 else snd (last [(blk1, 11 :: root)])) \<noteq> 0"
    by simp
  have h11: "(if [(blk1, 11 :: root)] = [] then cells ?st ! 0 else snd (last [(blk1, 11 :: root)]))
               \<noteq> ParentRoot blk2"
    by (simp add: blk2_def)
  have h12: "\<forall>x \<in> set [(blk1, 11 :: root)]. chunkWriter (test_env 2) (fst x) = None"
    by (simp add: test_env_def)
  show ?thesis
    using h8 h11
      disjoint_chain_truncates [OF h1 h2 h3 h4 h5 h6 h7 h8 h9 h10 h11 h12, of 2]
    by simp
qed

text \<open>
  Claim C4 says that in every batch served with step 1, a canonical block whose
  parent root differs from the root of the previously accepted block, that root being
  non-zero, ends the response after the blocks accepted before it, with no error
  chunk.  For the first block of a batch the previously accepted block is the last
  one of the batch before, and there the code does not truncate.  On the example
  store with a batch limit of 1 and the request of two blocks from slot 1: the first
  pass writes the block at slot 1, whose root is 11, and leaves the previous-root
  cell (cell 0) at zero; the second pass serves the batch \<open>[2, 2]\<close>, whose only
  block is canonical and has the parent root 77, and writes that block too instead of
  ending the response after the block at slot 1.
\<close>

theorem first_block_of_batch_not_truncated:
  "batchStep (test_env 1) \<lparr>StartSlot = 1, Step = 1, Count = 2\<rparr> 2 0
     \<lparr>batch_start = 1, batch_end = 1, stream = [], remaining = 100, cells = [0]\<rparr>
     = Continue \<lparr>batch_start = 2, batch_end = 2, stream = [SuccessChunk blk1], remaining = 99,
                 cells = [0, 11]\<rparr> \<and>
   retrieveBatch (test_env 1) 2 2 1 = Inr ([blk2], [12]) \<and>
   canonical_blocks (test_env 1) (zip [blk2] [12]) = [(blk2, 12)] \<and>
   ParentRoot blk2 \<noteq> 11 \<and> (11 :: root) \<noteq> 0 \<and>
   batchStep (test_env 1) \<lparr>StartSlot = 1, Step = 1, Count = 2\<rparr> 2 0
     \<lparr>batch_start = 2, batch_end = 2, stream = [SuccessChunk blk1], remaining = 99,
      cells = [0, 11]\<rparr>
     = Done \<lparr>ret = None, written = [SuccessChunk blk1, SuccessChunk blk2], bucket = 98,
             penalties = 0, final_cells = [0, 11, 12]\<rparr>"
  by (simp add: range_defs retrieveBatch_def canonical_blocks_def test_env_def blk1_def blk2_def)

text \<open>
  Claim C9.  (i) A pass of the batching loop over a batch \<open>[batch_start, batch_end]\<close>
  with \<open>batch_start \<le> batch_end\<close> that the rate limiter admits, whose span is within
  the range limit and whose blocks are written without a store or serialization
  error, debits the peer's bucket by \<open>1 + (batch_end - batch_start) div step\<close>: the
  bucket afterwards is the bucket's \<open>add\<close> of that amount, and is exactly the
  previous remaining capacity less that amount when the capacity covers it.  (ii) A
  valid request that arrives when the remaining capacity is below the per-request
  cost, the batch limit, is answered with the rate-limited error and leaves the
  bucket as it was.  (iii) \<open>n\<close> requests of step 1 with a count equal to the batch
  limit, on a bucket whose remaining capacity is \<open>n\<close> times the batch limit, are all
  served and leave a remaining capacity of 0; one more request is answered with the
  rate-limited error, and the remaining capacity is 0.
\<close>

theorem bucket_debit_and_overflow:
  assumes rate: "limiter_validateRequest (remaining st) (BlockBatchLimit s) = None"
    and rng: "\<not> batch_end st - batch_start st > rangeLimit s"
    and served: "fst (writeBlockRangeToStream s (batch_start st) (batch_end st) (Step m) (cells st)
                        pr (stream st)) = None \<or>
                 fst (writeBlockRangeToStream s (batch_start st) (batch_end st) (Step m) (cells st)
                        pr (stream st)) = Some ErrInvalidParent"
    and le: "batch_start st \<le> batch_end st"
    and nz: "Step m \<noteq> 0"
    and rl: "uint (rangeLimit s) < 2 ^ 63 - 1"
    and valid1: "validateRangeRequest s m1 = None"
    and enter1: "StartSlot m1 \<le> StartSlot m1 + Step m1 * (Count m1 - 1)"
    and low: "r < uint (BlockBatchLimit s)"
    and valid2: "validateRangeRequest s m2 = None"
    and step2: "Step m2 = 1"
    and full2: "Count m2 = BlockBatchLimit s"
    and nowrap2: "uint (StartSlot m2) + uint (Count m2) < 2 ^ 64"
    and srv2: "serves s (StartSlot m2) (StartSlot m2 + (Count m2 - 1)) 1"
  shows "bucket_after (batchStep s m endReqSlot pr st) = limiter_add (remaining st) (batch_debit m st) \<and>
         (batch_debit m st \<le> remaining st \<longrightarrow>
            bucket_after (batchStep s m endReqSlot pr st) = remaining st - batch_debit m st) \<and>
         beaconBlocksByRangeRPCHandler s (Some r) m1 =
           Some \<lparr>ret = Some ErrRateLimited,
                 written = [ErrorChunk responseCodeRateLimited ErrRateLimited],
                 bucket = r, penalties = 1, final_cells = [0]\<rparr> \<and>
         serveRequests s m2 n (uint (BlockBatchLimit s) * int n) = Some (replicate n None, 0) \<and>
         beaconBlocksByRangeRPCHandler s (Some 0) m2 =
           Some \<lparr>ret = Some ErrRateLimited,
                 written = [ErrorChunk responseCodeRateLimited ErrRateLimited],
                 bucket = 0, penalties = 1, final_cells = [0]\<rparr>"
proof -
  obtain err out' h' where w: "writeBlockRangeToStream s (batch_start st) (batch_end st) (Step m)
       (cells st) pr (stream st) = (err, out', h')"
    by (metis prod.exhaust)
  have e: "err = None \<or> err = Some ErrInvalidParent" using served w by simp
  have "sint (1 + (batch_end st - batch_start st) div Step m) = batch_debit m st"
    unfolding batch_debit_def using debit_int [OF le rng rl, of "Step m"] .
  then have a: "bucket_after (batchStep s m endReqSlot pr st)
                  = limiter_add (remaining st) (batch_debit m st)"
    using batchStep_after_write [OF rate rng w e nz, of endReqSlot] le by simp
  have a': "batch_debit m st \<le> remaining st \<longrightarrow>
            bucket_after (batchStep s m endReqSlot pr st) = remaining st - batch_debit m st"
    unfolding a by (simp add: limiter_add_def)
  have b: "beaconBlocksByRangeRPCHandler s (Some r) m1 =
           Some \<lparr>ret = Some ErrRateLimited,
                 written = [ErrorChunk responseCodeRateLimited ErrRateLimited],
                 bucket = r, penalties = 1, final_cells = [0]\<rparr>"
    using rate_limited_request [OF valid1 enter1 low] .
  have c: "serveRequests s m2 n (uint (BlockBatchLimit s) * int n) = Some (replicate n None, 0)"
    using burst_served [OF valid2 step2 full2 nowrap2 rl srv2] .
  have cnz: "Count m2 \<noteq> 0" using valid_request_facts [OF valid2] by simp
  then have pos: "0 < uint (BlockBatchLimit s)"
    using full2 word_zero_iff_uint [of "Count m2"] by simp
  have c1: "uint (Count m2 - 1) = uint (Count m2) - 1" using cnz by (rule uint_pred)
  have "uint (StartSlot m2) + uint (Count m2 - 1) < 2 ^ 64" using nowrap2 c1 by simp
  then have "uint (StartSlot m2 + (Count m2 - 1)) = uint (StartSlot m2) + uint (Count m2 - 1)"
    using uint_add_lem [of "StartSlot m2" "Count m2 - 1"] by simp
  then have enter2: "StartSlot m2 \<le> StartSlot m2 + Step m2 * (Count m2 - 1)"
    using step2 by (simp add: word_le_def)
  have d: "beaconBlocksByRangeRPCHandler s (Some 0) m2 =
           Some \<lparr>ret = Some ErrRateLimited,
                 written = [ErrorChunk responseCodeRateLimited ErrRateLimited],
                 bucket = 0, penalties = 1, final_cells = [0]\<rparr>"
    using rate_limited_request [OF valid2 enter2 pos] .
  show ?thesis using a a' b c d by blast
qed

text \<open>
  The theorem on the example store with a batch limit of 2, for the request of two
  blocks from slot 1: the batch costs 2; with a remaining capacity of 1 the request
  is refused; two requests consume a capacity of 4 and the third is refused.
\<close>

theorem bucket_debit_and_overflow_witness:
  "batch_debit \<lparr>StartSlot = 1, Step = 1, Count = 2\<rparr>
      \<lparr>batch_start = 1, batch_end = 2, stream = [], remaining = 4, cells = [0]\<rparr> = 2 \<and>
   bucket_after (batchStep (test_env 2) \<lparr>StartSlot = 1, Step = 1, Count = 2\<rparr> 2 0
      \<lparr>batch_start = 1, batch_end = 2, stream = [], remaining = 4, cells = [0]\<rparr>) = 2 \<and>
   map_option ret (beaconBlocksByRangeRPCHandler (test_env 2) (Some 1)
      \<lparr>StartSlot = 1, Step = 1, Count = 2\<rparr>) = Some (Some ErrRateLimited) \<and>
   serveRequests (test_env 2) \<lparr>StartSlot = 1, Step = 1, Count = 2\<rparr> 2 4 = Some ([None, None], 0) \<and>
   map_option bucket (beaconBlocksByRangeRPCHandler (test_env 2) (Some 0)
      \<lparr>StartSlot = 1, Step = 1, Count = 2\<rparr>) = Some 0"
proof -
  let ?m = "\<lparr>StartSlot = 1, Step = 1, Count = 2\<rparr>"
  let ?st = "\<lparr>batch_start = 1, batch_end = 2, stream = [], remaining = 4, cells = [0]\<rparr>"
  have srv: "serves (test_env 2) 1 2 1"
    by (simp add: serves_def writeBlockRangeToStream_def filterBlocks_def test_env_def Let_def)
  have h1: "limiter_validateRequest (remaining ?st) (BlockBatchLimit (test_env 2)) = None"
    by (simp add: limiter_validateRequest_def test_env_def)
  have h2: "\<not> batch_end ?st - batch_start ?st > rangeLimit (test_env 2)"
    by (simp add: test_env_def)
  have h3: "fst (writeBlockRangeToStream (test_env 2) (batch_start ?st) (batch_end ?st) (Step ?m)
                   (cells ?st) 0 (stream ?st)) = None \<or>
            fst (writeBlockRangeToStream (test_env 2) (batch_start ?st) (batch_end ?st) (Step ?m)
                   (cells ?st) 0 (stream ?st)) = Some ErrInvalidParent"
    using srv by (simp add: serves_def)
  have h4: "batch_start ?st \<le> batch_end ?st" by simp
  have h5: "Step ?m \<noteq> 0" by simp
  have h6: "uint (rangeLimit (test_env 2)) < 2 ^ 63 - 1" by (simp add: test_env_def)
  have h7: "validateRangeRequest (test_env 2) ?m = None"
    by (simp add: validateRangeRequest_def test_env_def)
  have h8: "StartSlot ?m \<le> StartSlot ?m + Step ?m * (Count ?m - 1)" by simp
  have h9: "(1 :: int) < uint (BlockBatchLimit (test_env 2))" by (simp add: test_env_def)
  have h10: "Step ?m = 1" by simp
  have h11: "Count ?m = BlockBatchLimit (test_env 2)" by (simp add: test_env_def)
  have h12: "uint (StartSlot ?m) + uint (Count ?m) < 2 ^ 64" by simp
  have h13: "serves (test_env 2) (StartSlot ?m) (StartSlot ?m + (Count ?m - 1)) 1"
    using srv by simp
  have d: "batch_debit ?m ?st = 2" by (simp add: batch_debit_def)
  have b: "uint (BlockBatchLimit (test_env 2)) = 2" by (simp add: test_env_def)
  show ?thesis
    using d b
      bucket_debit_and_overflow [OF h1 h2 h3 h4 h5 h6 h7 h8 h9 h7 h10 h11 h12 h13, of 2 2]
    by (simp add: limiter_add_def numeral_2_eq_2)
qed

subsection \<open>Round-robin driver: the batch check\<close>

declare skipProcessed.simps [simp del]

lemma skipProcessed_spec:
  assumes "HashTreeRoot s fb = Inr r"
  shows "skipProcessed s fb rest r =
     (case dropWhile (already_processed s) (fb # rest) of
        [] \<Rightarrow> Inl ErrNoGoodBlocks
      | b # bs \<Rightarrow> (case HashTreeRoot s b of Inl err \<Rightarrow> Inl err | Inr r' \<Rightarrow> Inr (b, bs, r')))"
  using assms
proof (induction rest arbitrary: fb r)
  case Nil
  then show ?case
    by (subst skipProcessed.simps) (simp add: already_processed_def)
next
  case (Cons b rest)
  have ap: "already_processed s fb = (HeadSlot s \<ge> Slot fb \<and> isProcessedBlock s fb r)"
    using Cons.prems by (simp add: already_processed_def)
  show ?case
  proof (cases "HeadSlot s \<ge> Slot fb \<and> isProcessedBlock s fb r")
    case False
    have "skipProcessed s fb (b # rest) r = Inr (fb, b # rest, r)"
      by (subst skipProcessed.simps, subst if_not_P [OF False], rule refl)
    moreover have "\<not> already_processed s fb" using False ap by blast
    ultimately show ?thesis using Cons.prems by simp
  next
    case True
    have unf: "skipProcessed s fb (b # rest) r =
                 (case HashTreeRoot s b of Inl err \<Rightarrow> Inl err
                  | Inr blkRoot' \<Rightarrow> skipProcessed s b rest blkRoot')"
      by (subst skipProcessed.simps, subst if_P [OF True], simp)
    have t: "already_processed s fb" using True ap by blast
    show ?thesis
    proof (cases "HashTreeRoot s b")
      case (Inl e)
      then have "\<not> already_processed s b" by (simp add: already_processed_def)
      then show ?thesis using t Inl unf by simp
    next
      case (Inr r')
      then show ?thesis using Cons.IH [OF Inr] t unf by simp
    qed
  qed
qed

lemma linkRoots_Inr:
  "linkRoots s prev bs = Inr rs \<Longrightarrow>
     length rs = length bs \<and>
     (\<forall>i < length bs. HashTreeRoot s (bs ! i) = Inr (rs ! i)) \<and>
     (\<forall>i < length bs. ParentRoot (bs ! i) = (prev # rs) ! i)"
proof (induction bs arbitrary: prev rs)
  case Nil
  then show ?case by simp
next
  case (Cons b bs)
  from Cons.prems obtain r rs' where
    p: "ParentRoot b = prev" and h: "HashTreeRoot s b = Inr r"
    and l: "linkRoots s r bs = Inr rs'" and rs: "rs = r # rs'"
    by (auto split: if_splits sum.splits)
  from Cons.IH [OF l] have ih: "length rs' = length bs"
    "\<forall>i < length bs. HashTreeRoot s (bs ! i) = Inr (rs' ! i)"
    "\<forall>i < length bs. ParentRoot (bs ! i) = (r # rs') ! i" by auto
  show ?case
    using p h rs ih by (auto simp: nth_Cons split: nat.splits)
qed

lemma linkRoots_linear:
  assumes "linkRoots s r bs = Inr rs" "HashTreeRoot s b = Inr r"
  shows "linear_batch s (b # bs) \<and> map (HashTreeRoot s) (b # bs) = map Inr (r # rs)"
proof -
  from linkRoots_Inr [OF assms(1)] have
    len: "length rs = length bs"
    and h: "\<forall>i < length bs. HashTreeRoot s (bs ! i) = Inr (rs ! i)"
    and p: "\<forall>i < length bs. ParentRoot (bs ! i) = (r # rs) ! i" by auto
  have "HashTreeRoot s ((b # bs) ! i) = Inr (ParentRoot ((b # bs) ! Suc i))"
    if "Suc i < length (b # bs)" for i
  proof (cases i)
    case 0
    then show ?thesis using that assms(2) p by simp
  next
    case (Suc j)
    then show ?thesis using that h p by simp
  qed
  then have "linear_batch s (b # bs)" unfolding linear_batch_def by blast
  moreover have "map (HashTreeRoot s) bs = map Inr rs"
    using len h by (simp add: list_eq_iff_nth_eq)
  ultimately show ?thesis using assms(2) by simp
qed

text \<open>
  Claim C10.  \<^verbatim>\<open>processBatchedBlocks\<close> passes a batch to the batch receiver only
  when the batch is non-empty after skipping the already processed leading blocks,
  the parent of the first remaining block is known locally, and the parent root of
  every later block is the hash-tree-root of the block immediately before it; the
  receiver then gets exactly the remaining blocks with their roots.  On any
  violation the function returns an error and the receiver is not invoked.
\<close>

theorem processBatchedBlocks_receiver:
  assumes "processBatchedBlocks s blks bFunc = (res, calls)"
  shows "(calls \<noteq> [] \<longrightarrow>
            batch_ok s blks \<and>
            (\<exists>roots. calls = [(remaining_batch s blks, roots)] \<and>
                     res = bFunc (remaining_batch s blks) roots \<and>
                     map (HashTreeRoot s) (remaining_batch s blks) = map Inr roots)) \<and>
         (\<not> batch_ok s blks \<longrightarrow> calls = [] \<and> res \<noteq> None)"
proof -
  have none: "res \<noteq> None" if "calls = []"
    using assms that unfolding processBatchedBlocks_def Let_def
    by (auto split: list.splits sum.splits prod.splits if_splits)
  have inv: "batch_ok s blks \<and>
            (\<exists>roots. calls = [(remaining_batch s blks, roots)] \<and>
                     res = bFunc (remaining_batch s blks) roots \<and>
                     map (HashTreeRoot s) (remaining_batch s blks) = map Inr roots)"
    if ne: "calls \<noteq> []"
  proof -
    from assms ne obtain fb rest r fb' rest' r' roots where
      blks: "blks = fb # rest" and h: "HashTreeRoot s fb = Inr r"
      and sk: "skipProcessed s fb rest r = Inr (fb', rest', r')"
      and pk: "HasBlock s (ParentRoot fb') \<or> HasInitSyncBlock s (ParentRoot fb')"
      and lk: "linkRoots s r' rest' = Inr roots"
      and res: "res = bFunc (fb' # rest') (r' # roots)"
      and calls: "calls = [(fb' # rest', r' # roots)]"
      unfolding processBatchedBlocks_def Let_def
      by (auto split: list.splits sum.splits prod.splits if_splits)
    from sk skipProcessed_spec [OF h, of rest] have
      rem: "remaining_batch s blks = fb' # rest'" and h': "HashTreeRoot s fb' = Inr r'"
      unfolding remaining_batch_def blks
      by (auto split: list.splits sum.splits)
    from linkRoots_linear [OF lk h'] have
      "linear_batch s (fb' # rest')" "map (HashTreeRoot s) (fb' # rest') = map Inr (r' # roots)"
      by auto
    then show ?thesis
      using rem pk res calls unfolding batch_ok_def parent_known_def by simp
  qed
  show ?thesis using none inv by blast
qed

text \<open>
  The theorem on the example node (head at slot 5): of the batch of slots 4 to 7 the
  receiver gets slots 6 and 7; a batch whose first remaining block (slot 8) has a
  parent that the node does not know is refused without a call.
\<close>

theorem processBatchedBlocks_receiver_witness:
  "processBatchedBlocks test_node [chain_block 4, chain_block 5, chain_block 6, chain_block 7]
       (\<lambda>bs rs. None) = (None, [([chain_block 6, chain_block 7], [106, 107])]) \<and>
   batch_ok test_node [chain_block 4, chain_block 5, chain_block 6, chain_block 7] \<and>
   \<not> batch_ok test_node [chain_block 5, chain_block 8] \<and>
   processBatchedBlocks test_node [chain_block 5, chain_block 8] (\<lambda>bs rs. None)
     = (Some ErrParentDoesNotExist, [])"
proof -
  have e1: "processBatchedBlocks test_node [chain_block 4, chain_block 5, chain_block 6, chain_block 7]
       (\<lambda>bs rs. None) = (None, [([chain_block 6, chain_block 7], [106, 107])])"
    by (simp add: processBatchedBlocks_def skipProcessed.simps test_node_def chain_block_def
        isProcessedBlock_def)
  have e2: "processBatchedBlocks test_node [chain_block 5, chain_block 8] (\<lambda>bs rs. None)
     = (Some ErrParentDoesNotExist, [])"
    by (simp add: processBatchedBlocks_def skipProcessed.simps test_node_def chain_block_def
        isProcessedBlock_def)
  have n: "\<not> batch_ok test_node [chain_block 5, chain_block 8]"
    by (simp add: batch_ok_def remaining_batch_def already_processed_def parent_known_def
        test_node_def chain_block_def isProcessedBlock_def)
  show ?thesis
    using processBatchedBlocks_receiver [OF e1] processBatchedBlocks_receiver [OF e2] e1 e2 n
    by simp
qed

subsection \<open>Gossip admission: the seen-block and bad-block caches\<close>

lemma set_move_front: "k \<in> set xs \<Longrightarrow> set (k # remove1 k xs) = set xs"
  by (induction xs) auto

lemma lru_Get_keys: "set (lru_keys (snd (lru_Get k c))) = set (lru_keys c)"
  using set_move_front [of k "lru_keys c"] by (simp add: lru_Get_def)

lemma lru_Get_found: "fst (lru_Get k c) = (k \<in> set (lru_keys c))"
  by (simp add: lru_Get_def)

lemma hasSeen_state:
  "seen_pairs (snd (hasSeenBlockIndexSlot a b st)) = seen_pairs st"
  "bad_roots (snd (hasSeenBlockIndexSlot a b st)) = bad_roots st"
  "fst (hasSeenBlockIndexSlot a b st) = ((a, b) \<in> seen_pairs st)"
  using lru_Get_keys [of "(a, b)" "seenBlockCache st"] lru_Get_found [of "(a, b)" "seenBlockCache st"]
  by (simp_all add: hasSeenBlockIndexSlot_def seen_pairs_def bad_roots_def case_prod_beta)

lemma hasBad_state:
  "seen_pairs (snd (hasBadBlock r st)) = seen_pairs st"
  "bad_roots (snd (hasBadBlock r st)) = bad_roots st"
  "fst (hasBadBlock r st) = (r \<in> bad_roots st)"
  using lru_Get_keys [of r "badBlockCache st"] lru_Get_found [of r "badBlockCache st"]
  by (simp_all add: hasBadBlock_def seen_pairs_def bad_roots_def case_prod_beta)

lemma setBadBlock_pairs: "seen_pairs (setBadBlock ctx r st) = seen_pairs st"
  by (simp add: setBadBlock_def seen_pairs_def)

lemma setBadBlock_cancel: "ctx \<noteq> None \<Longrightarrow> setBadBlock ctx r st = st"
  by (simp add: setBadBlock_def)

lemma validateBeaconBlock_pairs:
  "seen_pairs (snd (validateBeaconBlock s ctx blk blockRoot st)) = seen_pairs st"
  unfolding validateBeaconBlock_def
  by (simp add: setBadBlock_pairs split: option.splits sum.splits)

lemma validateBeaconBlock_cancel:
  "ctx \<noteq> None \<Longrightarrow> snd (validateBeaconBlock s ctx blk blockRoot st) = st"
  unfolding validateBeaconBlock_def
  by (simp add: setBadBlock_cancel split: option.splits sum.splits)

lemma upd_state:
  "seen_pairs (st\<lparr>blockFeed := f\<rparr>) = seen_pairs st"
  "seen_pairs (st\<lparr>pendingQueue := q\<rparr>) = seen_pairs st"
  "bad_roots (st\<lparr>blockFeed := f\<rparr>) = bad_roots st"
  "bad_roots (st\<lparr>pendingQueue := q\<rparr>) = bad_roots st"
  by (simp_all add: seen_pairs_def bad_roots_def)

lemma classifier_keeps_seen:
  "seen_pairs (snd (validateBeaconBlockPubSub s ctx pid msg st)) = seen_pairs st"
  unfolding validateBeaconBlockPubSub_def
  by (cases msg)
    (simp_all add: case_prod_beta hasSeen_state hasBad_state setBadBlock_pairs
      validateBeaconBlock_pairs upd_state
      split: bool.splits option.splits sum.splits)

lemma classifier_cancel_keeps_bad:
  assumes "ctx \<noteq> None"
  shows "bad_roots (snd (validateBeaconBlockPubSub s ctx pid msg st)) = bad_roots st"
  unfolding validateBeaconBlockPubSub_def
  by (cases msg)
    (simp_all add: case_prod_beta hasSeen_state hasBad_state setBadBlock_cancel [OF assms]
      validateBeaconBlock_cancel [OF assms] upd_state
      split: bool.splits option.splits sum.splits)

lemma lru_Add_present:
  assumes "0 < lru_size c"
  shows "k \<in> set (lru_keys (lru_Add k c))"
  using assms by (cases "lru_size c") (auto simp: lru_Add_def)

lemmas gossip_defs = validateBeaconBlockPubSub_def validateBeaconBlock_def hasSeenBlockIndexSlot_def
  hasBadBlock_def setBadBlock_def lru_Get_def lru_Add_def setSeenBlockIndexSlot_def

text \<open>
  Claim C7, as stated: a block that the classifier accepts is ignored when a block
  with the same slot and proposer index is submitted again, because the first
  classification records the pair.  The classifier does not record it: on the
  example node a block from peer 2 is accepted, and the same block submitted again to
  the state that the first run left is accepted again.
\<close>

theorem resubmission_accepted_twice:
  "fst (validateBeaconBlockPubSub test_gossip None 2 (SignedBlock gossip_block) empty_state)
     = ValidationAccept \<and>
   fst (validateBeaconBlockPubSub test_gossip None 2 (SignedBlock gossip_block)
          (snd (validateBeaconBlockPubSub test_gossip None 2 (SignedBlock gossip_block) empty_state)))
     \<noteq> ValidationIgnore"
  by (simp add: gossip_defs test_gossip_def gossip_block_def empty_state_def)

text \<open>
  The classification reads the state only through the pairs of the seen-block cache,
  the roots of the bad-block cache and the pending queue.
\<close>

lemma validateBeaconBlock_fst:
  "fst (validateBeaconBlock s ctx blk blockRoot st') = fst (validateBeaconBlock s ctx blk blockRoot st)"
  unfolding validateBeaconBlock_def
  by (simp add: if_distrib [of fst] option.case_distrib [of fst] sum.case_distrib [of fst]
      cong: option.case_cong sum.case_cong if_cong)

lemma validateBeaconBlock_snd:
  "snd (validateBeaconBlock s ctx blk blockRoot st) = st \<or>
   snd (validateBeaconBlock s ctx blk blockRoot st) = setBadBlock ctx blockRoot st \<and>
   fst (validateBeaconBlock s ctx blk blockRoot st) \<noteq> None"
  unfolding validateBeaconBlock_def
  by (simp split: option.splits sum.splits)

lemma validateBeaconBlock_ok:
  "fst (validateBeaconBlock s ctx blk blockRoot st) = None \<Longrightarrow>
     snd (validateBeaconBlock s ctx blk blockRoot st) = st"
  using validateBeaconBlock_snd [of s ctx blk blockRoot st] by argo

lemma pending_kept:
  "pendingQueue (snd (hasSeenBlockIndexSlot a b st)) = pendingQueue st"
  "pendingQueue (snd (hasBadBlock r st)) = pendingQueue st"
  "pendingQueue (setBadBlock ctx r st) = pendingQueue st"
  "pendingQueue (st\<lparr>blockFeed := f\<rparr>) = pendingQueue st"
  by (simp_all add: hasSeenBlockIndexSlot_def hasBadBlock_def setBadBlock_def case_prod_beta)

lemmas fst_inside = if_distrib [of fst] bool.case_distrib [of fst] option.case_distrib [of fst]
  sum.case_distrib [of fst] pubsub_msg.case_distrib [of fst]

lemma classifier_reads:
  assumes "seen_pairs st' = seen_pairs st" and "bad_roots st' = bad_roots st"
    and "pendingQueue st' = pendingQueue st"
  shows "fst (validateBeaconBlockPubSub s ctx pid msg st') = fst (validateBeaconBlockPubSub s ctx pid msg st)"
proof -
  define ok where "ok blk r = fst (validateBeaconBlock s ctx blk r st)" for blk r
  have v: "fst (validateBeaconBlock s ctx blk r x) = ok blk r" for blk r x
    unfolding ok_def by (rule validateBeaconBlock_fst)
  show ?thesis
    unfolding validateBeaconBlockPubSub_def
    by (simp add: case_prod_beta fst_inside hasSeen_state hasBad_state upd_state pending_kept
        assms v
        cong: option.case_cong sum.case_cong bool.case_cong pubsub_msg.case_cong if_cong)
qed

lemma classifier_accept_state:
  "fst (validateBeaconBlockPubSub s ctx pid msg st) = ValidationAccept \<longrightarrow>
     bad_roots (snd (validateBeaconBlockPubSub s ctx pid msg st)) = bad_roots st \<and>
     pendingQueue (snd (validateBeaconBlockPubSub s ctx pid msg st)) = pendingQueue st"
  unfolding validateBeaconBlockPubSub_def
  by (cases msg)
    (simp_all add: case_prod_beta hasSeen_state hasBad_state upd_state pending_kept
      validateBeaconBlock_ok
      split: bool.splits option.splits sum.splits)

lemma seen_check_ignores:
  assumes "pid \<noteq> PeerID s" and "\<not> Syncing s" and "(Slot blk, ProposerIndex blk) \<in> seen_pairs st"
  shows "fst (validateBeaconBlockPubSub s ctx pid (SignedBlock blk) st) = ValidationIgnore"
proof -
  have "fst (hasSeenBlockIndexSlot (Slot blk) (ProposerIndex blk)
               (st\<lparr>blockFeed := blockFeed st @ [blk]\<rparr>))"
    using assms(3) by (simp add: hasSeen_state upd_state)
  then show ?thesis
    unfolding validateBeaconBlockPubSub_def using assms(1,2)
    by (simp add: case_prod_beta)
qed

text \<open>
  Claim C7, amended.  The classifier reads the seen-block cache and never adds to it:
  whatever the message and the sender, the pairs in the cache are the same after a
  run.  So a message that the classifier accepted is accepted again when it is
  submitted again to the state that the run left, and a message from the node's own
  peer id is always accepted.  A block from another peer, received while the node is
  not in initial sync, is ignored whenever its pair of slot and proposer index is in
  the seen-block cache.  \<^verbatim>\<open>setSeenBlockIndexSlot\<close>, which the classifier does not
  call, puts the pair of its arguments into the cache (if the capacity of the cache
  is not zero).
\<close>

theorem seen_pair_is_ignored:
  "seen_pairs (snd (validateBeaconBlockPubSub s ctx pid msg st)) = seen_pairs st \<and>
   (fst (validateBeaconBlockPubSub s ctx pid msg st) = ValidationAccept \<longrightarrow>
      fst (validateBeaconBlockPubSub s ctx pid msg (snd (validateBeaconBlockPubSub s ctx pid msg st)))
        = ValidationAccept) \<and>
   (pid = PeerID s \<longrightarrow> fst (validateBeaconBlockPubSub s ctx pid msg st) = ValidationAccept) \<and>
   (pid \<noteq> PeerID s \<and> \<not> Syncing s \<and> (Slot blk, ProposerIndex blk) \<in> seen_pairs st \<longrightarrow>
      fst (validateBeaconBlockPubSub s ctx pid (SignedBlock blk) st) = ValidationIgnore) \<and>
   (0 < lru_size (seenBlockCache st) \<longrightarrow>
      (slot, idx) \<in> seen_pairs (setSeenBlockIndexSlot slot idx st))"
proof (intro conjI impI)
  show k: "seen_pairs (snd (validateBeaconBlockPubSub s ctx pid msg st)) = seen_pairs st"
    by (rule classifier_keeps_seen)
  show "fst (validateBeaconBlockPubSub s ctx pid msg (snd (validateBeaconBlockPubSub s ctx pid msg st)))
          = ValidationAccept"
    if acc: "fst (validateBeaconBlockPubSub s ctx pid msg st) = ValidationAccept"
  proof -
    have b: "bad_roots (snd (validateBeaconBlockPubSub s ctx pid msg st)) = bad_roots st"
      and p: "pendingQueue (snd (validateBeaconBlockPubSub s ctx pid msg st)) = pendingQueue st"
      using classifier_accept_state [of s ctx pid msg st] acc by simp_all
    show ?thesis
      using classifier_reads [OF k b p, where s = s and ctx = ctx and pid = pid and msg = msg] acc
      by simp
  qed
  show "fst (validateBeaconBlockPubSub s ctx pid msg st) = ValidationAccept" if "pid = PeerID s"
    using that by (simp add: validateBeaconBlockPubSub_def)
  show "fst (validateBeaconBlockPubSub s ctx pid (SignedBlock blk) st) = ValidationIgnore"
    if "pid \<noteq> PeerID s \<and> \<not> Syncing s \<and> (Slot blk, ProposerIndex blk) \<in> seen_pairs st"
    using that seen_check_ignores by blast
  show "(slot, idx) \<in> seen_pairs (setSeenBlockIndexSlot slot idx st)"
    if "0 < lru_size (seenBlockCache st)"
    using lru_Add_present [OF that] by (simp add: setSeenBlockIndexSlot_def seen_pairs_def)
qed

text \<open>
  The theorem on the example node.  The block from peer 2 is accepted, and accepted
  again on the state that the run left; from the node's own peer id 1 it is accepted
  as well.  After \<^verbatim>\<open>setSeenBlockIndexSlot\<close> has recorded its pair \<open>(3, 7)\<close>, and
  the pair \<open>(9, 9)\<close> after it, the pair is in the cache and the block is ignored.
\<close>

theorem seen_pair_is_ignored_witness:
  "fst (validateBeaconBlockPubSub test_gossip None 2 (SignedBlock gossip_block) empty_state)
     = ValidationAccept \<and>
   fst (validateBeaconBlockPubSub test_gossip None 2 (SignedBlock gossip_block)
          (snd (validateBeaconBlockPubSub test_gossip None 2 (SignedBlock gossip_block) empty_state)))
     = ValidationAccept \<and>
   fst (validateBeaconBlockPubSub test_gossip None 1 (SignedBlock gossip_block) empty_state)
     = ValidationAccept \<and>
   (3, 7) \<in> seen_pairs (setSeenBlockIndexSlot 9 9 (setSeenBlockIndexSlot 3 7 empty_state)) \<and>
   fst (validateBeaconBlockPubSub test_gossip None 2 (SignedBlock gossip_block)
          (setSeenBlockIndexSlot 9 9 (setSeenBlockIndexSlot 3 7 empty_state)))
     = ValidationIgnore \<and>
   seen_pairs (snd (validateBeaconBlockPubSub test_gossip None 2 (SignedBlock gossip_block) empty_state))
     = seen_pairs empty_state"
proof -
  let ?st = "setSeenBlockIndexSlot 9 9 (setSeenBlockIndexSlot 3 7 empty_state)"
  have acc: "fst (validateBeaconBlockPubSub test_gossip None 2 (SignedBlock gossip_block) empty_state)
     = ValidationAccept"
    by (simp add: gossip_defs test_gossip_def gossip_block_def empty_state_def)
  have own: "(1 :: nat) = PeerID test_gossip" by (simp add: test_gossip_def)
  have other: "(2 :: nat) \<noteq> PeerID test_gossip" "\<not> Syncing test_gossip"
    by (simp_all add: test_gossip_def)
  have cap: "0 < lru_size (seenBlockCache empty_state)" by (simp add: empty_state_def)
  have pair: "(Slot gossip_block, ProposerIndex gossip_block) \<in> seen_pairs ?st"
    "(3, 7) \<in> seen_pairs ?st"
    by (simp_all add: seen_pairs_def setSeenBlockIndexSlot_def lru_Add_def empty_state_def
        gossip_block_def)
  show ?thesis
    using acc own other cap pair
      seen_pair_is_ignored [where s = test_gossip and ctx = None and pid = 2
        and msg = "SignedBlock gossip_block" and st = empty_state and blk = gossip_block
        and slot = 3 and idx = 7]
      seen_pair_is_ignored [where s = test_gossip and ctx = None and pid = 1
        and msg = "SignedBlock gossip_block" and st = empty_state and blk = gossip_block
        and slot = 3 and idx = 7]
      seen_pair_is_ignored [where s = test_gossip and ctx = None and pid = 2
        and msg = "SignedBlock gossip_block" and st = ?st and blk = gossip_block
        and slot = 3 and idx = 7]
    by simp
qed

text \<open>
  The seen-block cache is bounded: in a cache of capacity 1 the recording of the pair
  \<open>(9, 9)\<close> evicts the pair \<open>(3, 7)\<close>, and the block is accepted again.
\<close>

lemma evicted_pair_is_accepted:
  "fst (validateBeaconBlockPubSub test_gossip None 2 (SignedBlock gossip_block)
          (setSeenBlockIndexSlot 9 9 (setSeenBlockIndexSlot 3 7
             (empty_state\<lparr>seenBlockCache := \<lparr>lru_size = 1, lru_keys = []\<rparr>\<rparr>))))
     = ValidationAccept"
  by (simp add: gossip_defs test_gossip_def gossip_block_def empty_state_def)

text \<open>
  Claim C8.  Under a context whose \<^verbatim>\<open>Err()\<close> is not nil, \<^verbatim>\<open>setBadBlock\<close> leaves
  the state, and with it the bad-block cache, unchanged.  So a validation that runs
  under a cancelled context records no block as bad, whichever check fails: the full
  validation \<^verbatim>\<open>validateBeaconBlock\<close> returns the state it was given, a whole
  run of the classifier leaves the same roots in the bad-block cache, and
  \<^verbatim>\<open>hasBadBlock\<close> answers for every root as it did before.
\<close>

theorem setBadBlock_cancelled:
  assumes "ctx \<noteq> None"
  shows "setBadBlock ctx r st = st \<and>
         snd (validateBeaconBlock s ctx blk blockRoot st) = st \<and>
         bad_roots (snd (validateBeaconBlockPubSub s ctx pid msg st)) = bad_roots st \<and>
         fst (hasBadBlock r' (snd (validateBeaconBlockPubSub s ctx pid msg st)))
           = fst (hasBadBlock r' st)"
proof (intro conjI)
  show "setBadBlock ctx r st = st" by (rule setBadBlock_cancel [OF assms])
  show "snd (validateBeaconBlock s ctx blk blockRoot st) = st"
    by (rule validateBeaconBlock_cancel [OF assms])
  show k: "bad_roots (snd (validateBeaconBlockPubSub s ctx pid msg st)) = bad_roots st"
    by (rule classifier_cancel_keeps_bad [OF assms])
  show "fst (hasBadBlock r' (snd (validateBeaconBlockPubSub s ctx pid msg st)))
          = fst (hasBadBlock r' st)"
    by (simp only: hasBad_state k)
qed

text \<open>
  The theorem on the example node, for a block whose proposer index (8) is not the
  expected one: under a live context the block's root 103 is recorded as bad, under a
  cancelled context it is not.
\<close>

theorem setBadBlock_cancelled_witness:
  "Some ErrContextCanceled \<noteq> None \<and>
   bad_roots (snd (validateBeaconBlockPubSub test_gossip None 2
                     (SignedBlock (gossip_block\<lparr>ProposerIndex := 8\<rparr>)) empty_state)) = {103} \<and>
   setBadBlock (Some ErrContextCanceled) 103 empty_state = empty_state \<and>
   bad_roots (snd (validateBeaconBlockPubSub test_gossip (Some ErrContextCanceled) 2
                     (SignedBlock (gossip_block\<lparr>ProposerIndex := 8\<rparr>)) empty_state)) = {} \<and>
   \<not> fst (hasBadBlock 103
            (snd (validateBeaconBlockPubSub test_gossip (Some ErrContextCanceled) 2
                    (SignedBlock (gossip_block\<lparr>ProposerIndex := 8\<rparr>)) empty_state)))"
proof -
  have h: "Some ErrContextCanceled \<noteq> None" by simp
  have live: "bad_roots (snd (validateBeaconBlockPubSub test_gossip None 2
                     (SignedBlock (gossip_block\<lparr>ProposerIndex := 8\<rparr>)) empty_state)) = {103}"
    by (simp add: gossip_defs bad_roots_def test_gossip_def gossip_block_def empty_state_def)
  have e: "bad_roots empty_state = {}" "\<not> fst (hasBadBlock 103 empty_state)"
    by (simp_all add: gossip_defs bad_roots_def empty_state_def)
  show ?thesis
    using h live e
      setBadBlock_cancelled [OF h, where r = 103 and st = empty_state and s = test_gossip
        and blk = "gossip_block\<lparr>ProposerIndex := 8\<rparr>" and blockRoot = 103 and pid = 2
        and msg = "SignedBlock (gossip_block\<lparr>ProposerIndex := 8\<rparr>)" and r' = 103]
    by simp
qed

subsection \<open>Sync queue: delivery order and the slot-too-high reset\<close>

lemmas queue_defs = trigger_def handle_def onScheduleEvent_def onDataReceivedEvent_def
  onReadyToSendEvent_def onProcessSkippedEvent_def onCheckStaleEvent_def send_def
  storeMachine_def setState_def resetPrevious_def earlier_pending_def isLast_def
  emitted_starts_def






lemma storeMachine_other:
  assumes "x \<in> set ms" and "fsm_start x \<noteq> fsm_start m"
  shows "x \<in> set (storeMachine m st now ms)"
  using assms by (auto simp: storeMachine_def image_iff)




lemma largest_below_spec:
  "largest_below s ms = Some b \<Longrightarrow>
     b < s \<and> (\<exists>x \<in> set ms. fsm_start x = b) \<and> (\<forall>x \<in> set ms. fsm_start x < s \<longrightarrow> fsm_start x \<le> b)"
proof (induction ms arbitrary: b)
  case Nil
  then show ?case by simp
next
  case (Cons x xs)
  show ?case
  proof (cases "largest_below s xs")
    case None
    have none: "\<forall>y \<in> set xs. \<not> fsm_start y < s"
      using None by (induction xs) (auto split: option.splits if_splits)
    from Cons.prems None show ?thesis using none by (auto split: if_splits)
  next
    case (Some c)
    from Cons.IH [OF Some] Cons.prems Some show ?thesis
      by (auto split: if_splits)
  qed
qed

lemma largest_below_None:
  "largest_below s ms = None \<Longrightarrow> \<forall>y \<in> set ms. \<not> fsm_start y < s"
  by (induction ms) (auto split: option.splits if_splits)

lemma previous_is_largest:
  assumes "is_previous ms s p"
  shows "largest_below s ms = Some (fsm_start p)"
proof (cases "largest_below s ms")
  case None
  then show ?thesis using assms largest_below_None [OF None] by (auto simp: is_previous_def)
next
  case (Some b)
  from largest_below_spec [OF Some] assms have "b \<le> fsm_start p" "fsm_start p \<le> b"
    by (auto simp: is_previous_def)
  then show ?thesis using Some by simp
qed

text \<open>
  Claim C6.  When a machine in \<open>stateScheduled\<close> receives a fetch response that
  carries the slot-too-high error for start slot \<open>s\<close>, the handler returns that
  error, the machine stays in \<open>stateScheduled\<close> (and is otherwise untouched), and the
  previous machine, the one with the largest start slot below \<open>s\<close>, is in
  \<open>stateNew\<close> afterwards; the machines at other start slots are as they were.
\<close>

theorem slot_too_high_resets_previous:
  assumes "fsm_state m = stateScheduled" and "resp_err response = Some errSlotIsTooHigh"
    and "is_previous (machines q) (resp_start response) p"
  shows "fst (onDataReceivedEvent e None now q m (Some response)) = (stateScheduled, Some errSlotIsTooHigh) \<and>
         fst (snd (onDataReceivedEvent e None now q m (Some response))) = m \<and>
         (\<exists>x \<in> set (machines (snd (snd (onDataReceivedEvent e None now q m (Some response))))).
             fsm_start x = fsm_start p) \<and>
         (\<forall>x \<in> set (machines (snd (snd (onDataReceivedEvent e None now q m (Some response))))).
             fsm_start x = fsm_start p \<longrightarrow> fsm_state x = stateNew) \<and>
         (\<forall>x \<in> set (machines q). fsm_start x \<noteq> fsm_start p \<longrightarrow>
             x \<in> set (machines (snd (snd (onDataReceivedEvent e None now q m (Some response))))))"
proof -
  have lb: "largest_below (resp_start response) (machines q) = Some (fsm_start p)"
    using previous_is_largest [OF assms(3)] .
  have r: "onDataReceivedEvent e None now q m (Some response) =
             ((stateScheduled, Some errSlotIsTooHigh), m,
              q\<lparr>machines := setState (fsm_start p) stateNew now (machines q)\<rparr>)"
    using assms(1,2) lb by (simp add: onDataReceivedEvent_def resetPrevious_def)
  have pin: "p \<in> set (machines q)" using assms(3) by (simp add: is_previous_def)
  let ?ms = "setState (fsm_start p) stateNew now (machines q)"
  have a: "\<exists>x \<in> set ?ms. fsm_start x = fsm_start p"
  proof
    show "p\<lparr>fsm_state := stateNew,
            fsm_updated := (if fsm_state p = stateNew then fsm_updated p else now)\<rparr> \<in> set ?ms"
      using pin by (auto simp: setState_def image_iff intro!: bexI [of _ p])
  qed simp
  have b: "\<forall>x \<in> set ?ms. fsm_start x = fsm_start p \<longrightarrow> fsm_state x = stateNew"
    by (auto simp: setState_def)
  have c: "\<forall>x \<in> set (machines q). fsm_start x \<noteq> fsm_start p \<longrightarrow> x \<in> set ?ms"
    by (auto simp: setState_def image_iff)
  show ?thesis unfolding r using a b c by simp
qed

text \<open>
  The theorem on the queue of the handler test: the machine at 250 is skipped, the
  response is for start slot 256.
\<close>

theorem slot_too_high_resets_previous_witness:
  "is_previous (machines test_queue_250) 256 (hd (machines test_queue_250)) \<and>
   fst (onDataReceivedEvent (test_queue_env True) None 1 test_queue_250
          \<lparr>fsm_start = 0, fsm_state = stateScheduled, fsm_pid = 0, fsm_blocks = [], fsm_updated = 0\<rparr>
          (Some \<lparr>resp_pid = 3, resp_start = 256, resp_blocks = [], resp_err = Some errSlotIsTooHigh\<rparr>))
     = (stateScheduled, Some errSlotIsTooHigh) \<and>
   map (\<lambda>x. (fsm_start x, fsm_state x))
     (machines (snd (snd (onDataReceivedEvent (test_queue_env True) None 1 test_queue_250
          \<lparr>fsm_start = 0, fsm_state = stateScheduled, fsm_pid = 0, fsm_blocks = [], fsm_updated = 0\<rparr>
          (Some \<lparr>resp_pid = 3, resp_start = 256, resp_blocks = [],
                 resp_err = Some errSlotIsTooHigh\<rparr>)))))
     = [(250, stateNew)]"
proof -
  have h1: "fsm_state \<lparr>fsm_start = 0, fsm_state = stateScheduled, fsm_pid = 0, fsm_blocks = [],
              fsm_updated = 0\<rparr> = stateScheduled" by simp
  have h2: "resp_err \<lparr>resp_pid = 3, resp_start = 256, resp_blocks = [],
              resp_err = Some errSlotIsTooHigh\<rparr> = Some errSlotIsTooHigh" by simp
  have h3: "is_previous (machines test_queue_250)
              (resp_start \<lparr>resp_pid = 3, resp_start = 256, resp_blocks = [],
                 resp_err = Some errSlotIsTooHigh\<rparr>) (hd (machines test_queue_250))"
    by (simp add: is_previous_def test_queue_250_def)
  have s: "fsm_start (hd (machines test_queue_250)) = 250" by (simp add: test_queue_250_def)
  have ev: "map (\<lambda>x. (fsm_start x, fsm_state x))
     (machines (snd (snd (onDataReceivedEvent (test_queue_env True) None 1 test_queue_250
          \<lparr>fsm_start = 0, fsm_state = stateScheduled, fsm_pid = 0, fsm_blocks = [], fsm_updated = 0\<rparr>
          (Some \<lparr>resp_pid = 3, resp_start = 256, resp_blocks = [],
                 resp_err = Some errSlotIsTooHigh\<rparr>)))))
     = [(250, stateNew)]"
    by (simp add: queue_defs test_queue_250_def test_queue_env_def)
  show ?thesis
    using h3 s ev slot_too_high_resets_previous [OF h1 h2 h3, where e = "test_queue_env True" and now = 1]
    by simp
qed



end
